theory Spec2Isabelle
  imports Main "HOL-Library.Word"
begin

section \<open>The Go standard-library functions the pipeline calls\<close>

text \<open>
  Go strings are byte sequences; \<^typ>\<open>string\<close> is a list of 8-bit characters, so a
  Go string and its model have the same bytes and the same length.
\<close>

subsection \<open>\<^verbatim>\<open>strings.Split(s, ",")\<close>\<close>

text \<open>
  \<^verbatim>\<open>strings.Split\<close> with a one-byte separator cuts at every occurrence of the
  separator. A string without separator is returned as the only element, so the result of
  splitting the empty string is the one-element list holding the empty string.
\<close>

fun Split :: "string \<Rightarrow> char \<Rightarrow> string list" where
  "Split [] sep = [[]]"
| "Split (c # cs) sep =
     (if c = sep then [] # Split cs sep
      else (case Split cs sep of [] \<Rightarrow> [[c]] | w # ws \<Rightarrow> (c # w) # ws))"

subsection \<open>\<^verbatim>\<open>strings.Join\<close> and \<^verbatim>\<open>strings.Replace(s, ",", ", ", -1)\<close>\<close>

fun Join :: "string list \<Rightarrow> string \<Rightarrow> string" where
  "Join [] sep = []"
| "Join [x] sep = x"
| "Join (x # y # ys) sep = x @ sep @ Join (y # ys) sep"

text \<open>Every occurrence of the byte \<open>old\<close> is replaced by the string \<open>new\<close>.\<close>

fun Replace :: "string \<Rightarrow> char \<Rightarrow> string \<Rightarrow> string" where
  "Replace [] old new = []"
| "Replace (c # cs) old new = (if c = old then new else [c]) @ Replace cs old new"

subsection \<open>\<^verbatim>\<open>strings.TrimSpace\<close>\<close>

text \<open>
  \<^verbatim>\<open>strings.TrimSpace\<close> removes the leading and then the trailing runes for which
  \<^verbatim>\<open>unicode.IsSpace\<close> holds. The runes are decoded from UTF-8; the white-space runes
  are U+0009..U+000D, U+0020, U+0085, U+00A0, U+1680, U+2000..U+200A, U+2028, U+2029,
  U+202F, U+205F and U+3000. A rune is decoded as one of them exactly when the bytes are
  its (shortest) UTF-8 encoding, so trimming removes these byte sequences.
\<close>

definition space_runes :: "string list" where
  "space_runes =
    [[CHR 0x09], [CHR 0x0A], [CHR 0x0B], [CHR 0x0C], [CHR 0x0D], [CHR 0x20],
     [CHR 0xC2, CHR 0x85], [CHR 0xC2, CHR 0xA0],
     [CHR 0xE1, CHR 0x9A, CHR 0x80],
     [CHR 0xE2, CHR 0x80, CHR 0x80], [CHR 0xE2, CHR 0x80, CHR 0x81],
     [CHR 0xE2, CHR 0x80, CHR 0x82], [CHR 0xE2, CHR 0x80, CHR 0x83],
     [CHR 0xE2, CHR 0x80, CHR 0x84], [CHR 0xE2, CHR 0x80, CHR 0x85],
     [CHR 0xE2, CHR 0x80, CHR 0x86], [CHR 0xE2, CHR 0x80, CHR 0x87],
     [CHR 0xE2, CHR 0x80, CHR 0x88], [CHR 0xE2, CHR 0x80, CHR 0x89],
     [CHR 0xE2, CHR 0x80, CHR 0x8A],
     [CHR 0xE2, CHR 0x80, CHR 0xA8], [CHR 0xE2, CHR 0x80, CHR 0xA9],
     [CHR 0xE2, CHR 0x80, CHR 0xAF],
     [CHR 0xE2, CHR 0x81, CHR 0x9F],
     [CHR 0xE3, CHR 0x80, CHR 0x80]]"

text \<open>The string without its first (last) rune, when that rune is white space.\<close>

definition strip_leading :: "string \<Rightarrow> string option" where
  "strip_leading s =
     (case find (\<lambda>r. take (length r) s = r) space_runes of
        None \<Rightarrow> None
      | Some r \<Rightarrow> Some (drop (length r) s))"

definition strip_trailing :: "string \<Rightarrow> string option" where
  "strip_trailing s =
     (case find (\<lambda>r. length r \<le> length s \<and> drop (length s - length r) s = r) space_runes of
        None \<Rightarrow> None
      | Some r \<Rightarrow> Some (take (length s - length r) s))"

lemma space_runes_nonempty: "r \<in> set space_runes \<Longrightarrow> r \<noteq> []"
  by (auto simp: space_runes_def)

lemma strip_leading_shorter: "strip_leading s = Some t \<Longrightarrow> length t < length s"
proof -
  assume a: "strip_leading s = Some t"
  then obtain r where f: "find (\<lambda>r. take (length r) s = r) space_runes = Some r"
    and t: "t = drop (length r) s"
    by (auto simp: strip_leading_def split: option.splits)
  from f have "r \<in> set space_runes" and tk: "take (length r) s = r"
    by (auto simp: find_Some_iff)
  then have "r \<noteq> []" by (simp add: space_runes_nonempty)
  with tk have "s \<noteq> []" by auto
  with \<open>r \<noteq> []\<close> t show ?thesis by simp
qed

lemma strip_trailing_shorter: "strip_trailing s = Some t \<Longrightarrow> length t < length s"
proof -
  assume a: "strip_trailing s = Some t"
  then obtain r where
    f: "find (\<lambda>r. length r \<le> length s \<and> drop (length s - length r) s = r) space_runes = Some r"
    and t: "t = take (length s - length r) s"
    by (auto simp: strip_trailing_def split: option.splits)
  from f have "r \<in> set space_runes" and le: "length r \<le> length s"
    by (auto simp: find_Some_iff)
  then have "r \<noteq> []" by (simp add: space_runes_nonempty)
  with le t show ?thesis by (cases s) auto
qed

function TrimLeft :: "string \<Rightarrow> string" where
  "TrimLeft s = (case strip_leading s of None \<Rightarrow> s | Some t \<Rightarrow> TrimLeft t)"
  by pat_completeness auto
termination
  by (relation "measure length") (auto simp: strip_leading_shorter)

function TrimRight :: "string \<Rightarrow> string" where
  "TrimRight s = (case strip_trailing s of None \<Rightarrow> s | Some t \<Rightarrow> TrimRight t)"
  by pat_completeness auto
termination
  by (relation "measure length") (auto simp: strip_trailing_shorter)

declare TrimLeft.simps [simp del] TrimRight.simps [simp del]

definition TrimSpace :: "string \<Rightarrow> string" where
  "TrimSpace s = TrimRight (TrimLeft s)"

subsection \<open>\<^verbatim>\<open>strconv.ParseUint(s, 10, 64)\<close>, \<^verbatim>\<open>strconv.ParseInt(s, 10, 64)\<close>\<close>

text \<open>
  A byte from \<^verbatim>\<open>'0'\<close> (48) to \<^verbatim>\<open>'9'\<close> (57) is a digit, with the value
  \<^verbatim>\<open>c - '0'\<close>.
\<close>

definition digit_val :: "char \<Rightarrow> nat option" where
  "digit_val c =
     (let d = of_char c :: nat in if 48 \<le> d \<and> d \<le> 57 then Some (d - 48) else None)"

text \<open>The value of a string of decimal digits, read from the left; \<open>None\<close> at a byte that is no digit.\<close>

fun parse_digits :: "string \<Rightarrow> nat \<Rightarrow> nat option" where
  "parse_digits [] acc = Some acc"
| "parse_digits (c # cs) acc =
     (case digit_val c of None \<Rightarrow> None | Some d \<Rightarrow> parse_digits cs (acc * 10 + d))"

text \<open>
  With the base given as 10 neither a sign, a base prefix nor an underscore is accepted.
  The empty string and a byte that is no digit are syntax errors, a value of
  \<open>2\<^sup>6\<^sup>4\<close> or more is a range error; the callers only test \<^verbatim>\<open>err != nil\<close>, so
  both are \<open>None\<close>.
\<close>

definition ParseUint :: "string \<Rightarrow> 64 word option" where
  "ParseUint s =
     (if s = [] then None
      else (case parse_digits s 0 of
              None \<Rightarrow> None
            | Some n \<Rightarrow> if n < 2 ^ 64 then Some (word_of_nat n) else None))"

text \<open>
  \<^verbatim>\<open>ParseInt\<close> takes one optional sign, reads the rest as \<^verbatim>\<open>ParseUint\<close> does, and
  accepts the values from \<open>-2\<^sup>6\<^sup>3\<close> to \<open>2\<^sup>6\<^sup>3 - 1\<close>.
\<close>

definition ParseInt :: "string \<Rightarrow> int option" where
  "ParseInt s =
     (case s of
        [] \<Rightarrow> None
      | c # cs \<Rightarrow>
          (let neg = (c = CHR ''-'');
               body = (if c = CHR ''+'' \<or> c = CHR ''-'' then cs else s)
           in if body = [] then None
              else (case parse_digits body 0 of
                      None \<Rightarrow> None
                    | Some n \<Rightarrow>
                        if \<not> neg \<and> n < 2 ^ 63 then Some (int n)
                        else if neg \<and> n \<le> 2 ^ 63 then Some (- int n)
                        else None)))"

subsection \<open>Decimal formatting: \<^verbatim>\<open>%d\<close> and \<^verbatim>\<open>%v\<close> of integers\<close>

definition digit_char :: "nat \<Rightarrow> char" where
  "digit_char d = ''0123456789'' ! d"

function FormatUint :: "nat \<Rightarrow> string" where
  "FormatUint n = (if n < 10 then [digit_char n] else FormatUint (n div 10) @ [digit_char (n mod 10)])"
  by pat_completeness auto
termination
  by (relation "measure id") auto

declare FormatUint.simps [simp del]

definition FormatInt :: "int \<Rightarrow> string" where
  "FormatInt i = (if i < 0 then CHR ''-'' # FormatUint (nat (- i)) else FormatUint (nat i))"

subsection \<open>Values and their \<^verbatim>\<open>%v\<close> form\<close>

text \<open>
  The kinds of \<^verbatim>\<open>reflect.Kind\<close> that the source names; every other kind is
  \<open>OtherKind\<close>. (\<open>reflect_Int\<close> stands for \<^verbatim>\<open>reflect.Int\<close>, and so on.)
\<close>

datatype Kind =
    reflect_String | reflect_Int | reflect_Int64 | reflect_Uint | reflect_Uint64
  | reflect_Slice | reflect_Array | OtherKind

text \<open>The values a field of \<^verbatim>\<open>GenericRequest\<close> or one of its elements can hold.\<close>

datatype Value =
    StringValue string
  | IntValue int
  | UintValue "64 word"
  | StringSlice "string list"
  | UintSlice "64 word list"

fun Kind_of :: "Value \<Rightarrow> Kind" where
  "Kind_of (StringValue s) = reflect_String"
| "Kind_of (IntValue i) = reflect_Int"
| "Kind_of (UintValue w) = reflect_Uint64"
| "Kind_of (StringSlice xs) = reflect_Slice"
| "Kind_of (UintSlice ws) = reflect_Slice"

text \<open>\<^verbatim>\<open>v.Len()\<close> and \<^verbatim>\<open>v.Index(i).Interface()\<close> for \<open>i\<close> below the length.\<close>

fun elems :: "Value \<Rightarrow> Value list" where
  "elems (StringSlice xs) = map StringValue xs"
| "elems (UintSlice ws) = map UintValue ws"
| "elems v = []"

text \<open>
  \<^verbatim>\<open>fmt.Sprintf("%v", x)\<close>: a string is printed as it is, an integer in decimal, a
  slice as its elements between brackets, separated by one space.
\<close>

fun Sprintf_v :: "Value \<Rightarrow> string" where
  "Sprintf_v (StringValue s) = s"
| "Sprintf_v (IntValue i) = FormatInt i"
| "Sprintf_v (UintValue w) = FormatUint (unat w)"
| "Sprintf_v (StringSlice xs) = ''['' @ Join xs '' '' @ '']''"
| "Sprintf_v (UintSlice ws) = ''['' @ Join (map (\<lambda>w. FormatUint (unat w)) ws) '' '' @ '']''"

section \<open>The custom validation rules registered in \<^verbatim>\<open>init\<close>\<close>

text \<open>
  The rule \<^verbatim>\<open>in\<close>: the parameter is split at its commas and the \<^verbatim>\<open>%v\<close> form
  of the field is compared with each member in turn.
\<close>

fun in_loop :: "string list \<Rightarrow> string \<Rightarrow> bool" where
  "in_loop [] fieldValue = False"
| "in_loop (v # vs) fieldValue = (if v = fieldValue then True else in_loop vs fieldValue)"

definition validate_in :: "string \<Rightarrow> Value \<Rightarrow> bool" where
  "validate_in param field =
     (let values = Split param CHR '','';
          fieldValue = Sprintf_v field
      in in_loop values fieldValue)"

text \<open>
  The rule \<^verbatim>\<open>unique\<close>: for a slice or an array, the \<^verbatim>\<open>%v\<close> forms of the elements
  seen so far are the keys of a map; the rule fails at the first element whose form is a
  key already. Every other kind passes.
\<close>

fun unique_loop :: "(string \<rightharpoonup> unit) \<Rightarrow> Value list \<Rightarrow> bool" where
  "unique_loop unique [] = True"
| "unique_loop unique (x # xs) =
     (let val = Sprintf_v x
      in if unique val \<noteq> None then False else unique_loop (unique(val \<mapsto> ())) xs)"

definition validate_unique :: "Value \<Rightarrow> bool" where
  "validate_unique field =
     (if Kind_of field = reflect_Slice \<or> Kind_of field = reflect_Array
      then unique_loop Map.empty (elems field)
      else True)"

section \<open>The data of \<^verbatim>\<open>main.go\<close>\<close>

text \<open>What the handler reads of a \<^verbatim>\<open>validator.FieldError\<close>.\<close>

record FieldError =
  Tag :: string
  Param :: string
  Kind :: Kind
  StructField :: string
  Value :: Value
  Error :: string

record ValidationError =
  Field :: string
  Message :: string
  Value :: string

record ErrorResponse =
  Code :: nat
  Message :: string
  Errors :: "ValidationError list"

text \<open>\<^verbatim>\<open>RequestParser\<close> is a string type: a descriptor may carry any string.\<close>

type_synonym RequestParser = string

definition BodyParser :: RequestParser where "BodyParser = ''body''"
definition QueryParser :: RequestParser where "QueryParser = ''query''"
definition ParamParser :: RequestParser where "ParamParser = ''param''"

record ValidationConfig =
  FieldName :: string
  Parser :: RequestParser
  Required :: bool
  Default :: string
  ValidateTags :: string

text \<open>
  The record that the handler fills. \<^verbatim>\<open>uint64\<close> is a 64-bit word. \<^verbatim>\<open>int\<close> is taken
  as it is on 64-bit platforms, 64 bits wide: \<^verbatim>\<open>ParseInt\<close> with the bit size 64 only
  returns values of that range, so \<^verbatim>\<open>SetInt\<close> stores them unchanged.
\<close>

record GenericRequest =
  Name :: string
  Email :: string
  Tags :: "string list"
  IDs :: "64 word list"
  UserID :: "64 word"
  Rating :: int
  validationGroup :: string

text \<open>
  The fields of \<^verbatim>\<open>GenericRequest\<close>, as \<^verbatim>\<open>FieldByName\<close> finds them: every
  declared field, the unexported \<^verbatim>\<open>validationGroup\<close> included, is found by its exact
  name; for any other name the returned value is invalid (\<open>None\<close>).
\<close>

datatype field =
    Name_field | Email_field | Tags_field | IDs_field | UserID_field | Rating_field
  | validationGroup_field

definition FieldByName :: "string \<Rightarrow> field option" where
  "FieldByName name =
     (if name = ''Name'' then Some Name_field
      else if name = ''Email'' then Some Email_field
      else if name = ''Tags'' then Some Tags_field
      else if name = ''IDs'' then Some IDs_field
      else if name = ''UserID'' then Some UserID_field
      else if name = ''Rating'' then Some Rating_field
      else if name = ''validationGroup'' then Some validationGroup_field
      else None)"

text \<open>\<^verbatim>\<open>field.Kind()\<close>, and \<^verbatim>\<open>field.Type().Elem().Kind()\<close> of the two slices.\<close>

fun field_Kind :: "field \<Rightarrow> Kind" where
  "field_Kind Name_field = reflect_String"
| "field_Kind Email_field = reflect_String"
| "field_Kind Tags_field = reflect_Slice"
| "field_Kind IDs_field = reflect_Slice"
| "field_Kind UserID_field = reflect_Uint64"
| "field_Kind Rating_field = reflect_Int"
| "field_Kind validationGroup_field = reflect_String"

fun Elem_Kind :: "field \<Rightarrow> Kind" where
  "Elem_Kind Tags_field = reflect_String"
| "Elem_Kind IDs_field = reflect_Uint64"
| "Elem_Kind f = OtherKind"

text \<open>
  The request, as far as the handler reads it: the parsed query (\<^verbatim>\<open>r.URL.Query()\<close>,
  every key with the list of its values), the route variables (\<^verbatim>\<open>mux.Vars(r)\<close>) and
  the payload.
\<close>

record Request =
  query :: "string \<rightharpoonup> string list"
  vars :: "string \<rightharpoonup> string"
  body :: string

text \<open>\<^verbatim>\<open>url.Values.Get\<close> is the first value of the key, or the empty string.\<close>

definition Values_Get :: "(string \<rightharpoonup> string list) \<Rightarrow> string \<Rightarrow> string" where
  "Values_Get vs key = (case vs key of None \<Rightarrow> [] | Some [] \<Rightarrow> [] | Some (v # _) \<Rightarrow> v)"

definition Values_Has :: "(string \<rightharpoonup> string list) \<Rightarrow> string \<Rightarrow> bool" where
  "Values_Has vs key = (vs key \<noteq> None)"

section \<open>The functions of \<^verbatim>\<open>main.go\<close>\<close>

definition getRawValue :: "Request \<Rightarrow> ValidationConfig \<Rightarrow> string \<times> bool" where
  "getRawValue r cfg =
     (if Parser cfg = BodyParser then ([], False)
      else if Parser cfg = QueryParser
        then (Values_Get (query r) (FieldName cfg), Values_Has (query r) (FieldName cfg))
      else if Parser cfg = ParamParser
        then (case vars r (FieldName cfg) of None \<Rightarrow> ([], False) | Some val \<Rightarrow> (val, True))
      else ([], False))"

text \<open>
  The setters of \<^verbatim>\<open>reflect.Value\<close> panic when the value was obtained through an
  unexported struct field (\<^verbatim>\<open>CanSet\<close> is false: this is \<^verbatim>\<open>validationGroup\<close>) and when
  the kind of the field is not the setter's.
\<close>

datatype set_result = Panic | Failed string | Done GenericRequest

fun SetString :: "field \<Rightarrow> string \<Rightarrow> GenericRequest \<Rightarrow> set_result" where
  "SetString Name_field x req = Done (req\<lparr>Name := x\<rparr>)"
| "SetString Email_field x req = Done (req\<lparr>Email := x\<rparr>)"
| "SetString f x req = Panic"

fun SetInt :: "field \<Rightarrow> int \<Rightarrow> GenericRequest \<Rightarrow> set_result" where
  "SetInt Rating_field x req = Done (req\<lparr>Rating := x\<rparr>)"
| "SetInt f x req = Panic"

fun SetUint :: "field \<Rightarrow> 64 word \<Rightarrow> GenericRequest \<Rightarrow> set_result" where
  "SetUint UserID_field x req = Done (req\<lparr>UserID := x\<rparr>)"
| "SetUint f x req = Panic"

fun Set_strings :: "field \<Rightarrow> string list \<Rightarrow> GenericRequest \<Rightarrow> set_result" where
  "Set_strings Tags_field x req = Done (req\<lparr>Tags := x\<rparr>)"
| "Set_strings f x req = Panic"

fun Set_uints :: "field \<Rightarrow> 64 word list \<Rightarrow> GenericRequest \<Rightarrow> set_result" where
  "Set_uints IDs_field x req = Done (req\<lparr>IDs := x\<rparr>)"
| "Set_uints f x req = Panic"

text \<open>
  The two loops of the slice branch. Both run over \<^verbatim>\<open>values\<close> with the index
  \<open>i\<close> and write into a slice made with the length of \<^verbatim>\<open>values\<close>; the second returns
  at the first element that does not parse, with \<open>i + 1\<close> in the message.
\<close>

fun trim_loop :: "nat \<Rightarrow> string list \<Rightarrow> string list \<Rightarrow> string list" where
  "trim_loop i [] slice' = slice'"
| "trim_loop i (v # vs) slice' = trim_loop (i + 1) vs (slice'[i := TrimSpace v])"

fun parse_loop :: "nat \<Rightarrow> string list \<Rightarrow> 64 word list \<Rightarrow> string + 64 word list" where
  "parse_loop i [] slice' = Inr slice'"
| "parse_loop i (v # vs) slice' =
     (case ParseUint (TrimSpace v) of
        None \<Rightarrow> Inl (''element '' @ FormatUint (i + 1) @ '': must be positive integer'')
      | Some val \<Rightarrow> parse_loop (i + 1) vs (slice'[i := val]))"

definition setFieldValue ::
  "field \<Rightarrow> string \<Rightarrow> ValidationConfig \<Rightarrow> GenericRequest \<Rightarrow> set_result" where
  "setFieldValue field rawValue cfg req =
     (case field_Kind field of
        reflect_String \<Rightarrow> SetString field rawValue req
      | reflect_Int \<Rightarrow>
          (case ParseInt rawValue of
             None \<Rightarrow> Failed ''must be a valid integer''
           | Some val \<Rightarrow> SetInt field val req)
      | reflect_Int64 \<Rightarrow>
          (case ParseInt rawValue of
             None \<Rightarrow> Failed ''must be a valid integer''
           | Some val \<Rightarrow> SetInt field val req)
      | reflect_Uint \<Rightarrow>
          (case ParseUint rawValue of
             None \<Rightarrow> Failed ''must be a positive integer''
           | Some val \<Rightarrow> SetUint field val req)
      | reflect_Uint64 \<Rightarrow>
          (case ParseUint rawValue of
             None \<Rightarrow> Failed ''must be a positive integer''
           | Some val \<Rightarrow> SetUint field val req)
      | reflect_Slice \<Rightarrow>
          (let values = Split rawValue CHR '','' in
           case Elem_Kind field of
             reflect_String \<Rightarrow>
               Set_strings field (trim_loop 0 values (replicate (length values) [])) req
           | reflect_Uint64 \<Rightarrow>
               (case parse_loop 0 values (replicate (length values) 0) of
                  Inl msg \<Rightarrow> Failed msg
                | Inr slice' \<Rightarrow> Set_uints field slice' req)
           | _ \<Rightarrow> Failed ''unsupported slice type'')
      | _ \<Rightarrow> Failed ''unsupported field type'')"

definition getValidationMessage :: "FieldError \<Rightarrow> string" where
  "getValidationMessage e =
     (if Tag e = ''required'' then ''This field is required''
      else if Tag e = ''min'' then
        (if Kind e = reflect_String then ''Minimum '' @ Param e @ '' characters required''
         else if Kind e = reflect_Slice then ''At least '' @ Param e @ '' items required''
         else ''Minimum value is '' @ Param e)
      else if Tag e = ''max'' then
        (if Kind e = reflect_String then ''Maximum '' @ Param e @ '' characters allowed''
         else if Kind e = reflect_Slice then ''Maximum '' @ Param e @ '' items allowed''
         else ''Maximum value is '' @ Param e)
      else if Tag e = ''in'' then ''Must be one of: '' @ Replace (Param e) CHR '','' '', ''
      else if Tag e = ''unique'' then ''Contains duplicate values''
      else if Tag e = ''dive'' then ''Invalid element: '' @ Error e
      else if Tag e = ''email'' then ''Invalid email format''
      else Error e)"

text \<open>
  The handler that \<^verbatim>\<open>ValidateRequest\<close> returns. The record starts at its zero value
  with the group \<open>grp\<close>; the body of the loop over the descriptors is \<open>parse_config\<close>, where
  \<open>None\<close> is a panic of the handler.
\<close>

definition new_request :: "string \<Rightarrow> GenericRequest" where
  "new_request grp =
     \<lparr>Name = [], Email = [], Tags = [], IDs = [], UserID = 0, Rating = 0,
      validationGroup = grp\<rparr>"

definition parse_config ::
  "Request \<Rightarrow> ValidationConfig \<Rightarrow> GenericRequest \<times> ValidationError list
     \<Rightarrow> (GenericRequest \<times> ValidationError list) option" where
  "parse_config r cfg st =
     (case st of (req, errors) \<Rightarrow>
      (case FieldByName (FieldName cfg) of
         None \<Rightarrow> Some (req, errors)
       | Some field \<Rightarrow>
           (case getRawValue r cfg of (rawValue, found) \<Rightarrow>
              if \<not> found then
                (if Required cfg
                 then Some (req, errors @
                        [\<lparr>Field = FieldName cfg, Message = ''This field is required'',
                          Value = []\<rparr>])
                 else Some (req, errors))
              else
                (case setFieldValue field rawValue cfg req of
                   Panic \<Rightarrow> None
                 | Failed msg \<Rightarrow>
                     Some (req, errors @
                       [\<lparr>Field = FieldName cfg, Message = msg, Value = rawValue\<rparr>])
                 | Done req' \<Rightarrow> Some (req', errors)))))"

fun parse_configs ::
  "Request \<Rightarrow> ValidationConfig list \<Rightarrow> GenericRequest \<times> ValidationError list
     \<Rightarrow> (GenericRequest \<times> ValidationError list) option" where
  "parse_configs r [] st = Some st"
| "parse_configs r (cfg # cfgs) st =
     (case parse_config r cfg st of None \<Rightarrow> None | Some st' \<Rightarrow> parse_configs r cfgs st')"

text \<open>
  What the handler does: it writes a status and a JSON payload, or it panics, or it
  does not return. \<^verbatim>\<open>validate.Struct\<close> belongs to the validator library; it is the
  parameter \<open>validate_Struct\<close>: \<open>Some\<close> of the list of the field errors it reports
  (empty when it returns \<^verbatim>\<open>nil\<close>), or \<open>None\<close> when the call does not return, and then
  the handler does not return either.
\<close>

datatype payload = ErrorBody ErrorResponse | ValidBody GenericRequest

datatype outcome = Panicked | NoReturn | Respond nat payload

definition StatusOK :: nat where "StatusOK = 200"
definition StatusBadRequest :: nat where "StatusBadRequest = 400"
definition StatusUnprocessableEntity :: nat where "StatusUnprocessableEntity = 422"

definition ValidateRequest ::
  "(GenericRequest \<Rightarrow> FieldError list option) \<Rightarrow> ValidationConfig list \<Rightarrow> string
     \<Rightarrow> Request \<Rightarrow> outcome" where
  "ValidateRequest validate_Struct configs grp r =
     (case parse_configs r configs (new_request grp, []) of
        None \<Rightarrow> Panicked
      | Some (req, errors) \<Rightarrow>
          if length errors > 0 then
            Respond StatusBadRequest
              (ErrorBody \<lparr>Code = StatusBadRequest, Message = ''Invalid request data'',
                          Errors = errors\<rparr>)
          else
            (case validate_Struct req of
               None \<Rightarrow> NoReturn
             | Some [] \<Rightarrow> Respond StatusOK (ValidBody req)
             | Some (e # es) \<Rightarrow>
                 Respond StatusUnprocessableEntity
                   (ErrorBody
                     \<lparr>Code = StatusUnprocessableEntity, Message = ''Validation failed'',
                      Errors =
                        map (\<lambda>e. \<lparr>Field = StructField e, Message = getValidationMessage e,
                                  Value = Sprintf_v (FieldError.Value e)\<rparr>) (e # es)\<rparr>)))"

section \<open>Notions for the statements\<close>

text \<open>
  The words of claim C9: the list is written back as the decimal forms of its elements,
  joined with commas.
\<close>

definition comma_joined :: "64 word list \<Rightarrow> string" where
  "comma_joined L = Join (map (\<lambda>w. FormatUint (unat w)) L) '',''"

text \<open>
  The errors that the visit of one descriptor adds, read off the body of the loop run on
  the fresh record.
\<close>

definition config_errors :: "Request \<Rightarrow> ValidationConfig \<Rightarrow> ValidationError list" where
  "config_errors r cfg =
     (case parse_config r cfg (new_request [], []) of
        None \<Rightarrow> []
      | Some (req, errors) \<Rightarrow> errors)"

text \<open>
  The one way the loop panics: a descriptor names the unexported field
  \<^verbatim>\<open>validationGroup\<close> and its source holds a value, so that \<^verbatim>\<open>SetString\<close> is called
  on a value that cannot be set.
\<close>

definition sets_unexported :: "Request \<Rightarrow> ValidationConfig \<Rightarrow> bool" where
  "sets_unexported r cfg = (FieldName cfg = ''validationGroup'' \<and> snd (getRawValue r cfg))"

text \<open>The error that the loop adds for a required field that is not present.\<close>

definition required_error :: "string \<Rightarrow> ValidationError" where
  "required_error name = \<lparr>Field = name, Message = ''This field is required'', Value = []\<rparr>"

section \<open>Example inputs\<close>

text \<open>
  Requests and descriptors for the closed instances below. The descriptor of \<^verbatim>\<open>IDs\<close>
  is the one of the update endpoint in \<^verbatim>\<open>main\<close>.
\<close>

definition empty_request :: Request where
  "empty_request = \<lparr>query = Map.empty, vars = Map.empty, body = []\<rparr>"

definition query_request :: "string \<Rightarrow> string \<Rightarrow> Request" where
  "query_request key val = \<lparr>query = [key \<mapsto> [val]], vars = Map.empty, body = []\<rparr>"

definition IDs_query_config :: ValidationConfig where
  "IDs_query_config =
     \<lparr>FieldName = ''IDs'', Parser = QueryParser, Required = False, Default = [],
      ValidateTags = ''omitempty,unique,dive,min=1''\<rparr>"

text \<open>
  \<^verbatim>\<open>validate.Struct\<close> as \<^verbatim>\<open>init\<close> sets it up. \<^verbatim>\<open>init\<close> registers
  \<^verbatim>\<open>validateUint64\<close> as the custom type function of \<^verbatim>\<open>uint64\<close>, and that function
  returns a \<^verbatim>\<open>uint64\<close> again. The library visits every exported field of the struct,
  tagged or not, and for a value whose type has a custom type function it calls the
  function and starts over with the result; for the field \<^verbatim>\<open>UserID\<close> this never
  ends. So on a \<^verbatim>\<open>GenericRequest\<close> the call does not return. No instance below that
  names an answer reaches the call.
\<close>

definition validate_Struct_hangs :: "GenericRequest \<Rightarrow> FieldError list option" where
  "validate_Struct_hangs req = None"

text \<open>
  The descriptors of the create endpoint of \<^verbatim>\<open>main\<close> (\<^verbatim>\<open>Name\<close>, \<^verbatim>\<open>Email\<close> and
  \<^verbatim>\<open>Tags\<close>, all read from the body), the descriptor of \<^verbatim>\<open>Rating\<close> of its search
  endpoint, and plain descriptors by name and source.
\<close>

definition Name_body_config :: ValidationConfig where
  "Name_body_config =
     \<lparr>FieldName = ''Name'', Parser = BodyParser, Required = True, Default = [],
      ValidateTags = ''required,min=3,max=50''\<rparr>"

definition Rating_query_config :: ValidationConfig where
  "Rating_query_config =
     \<lparr>FieldName = ''Rating'', Parser = QueryParser, Required = False, Default = ''5'',
      ValidateTags = ''omitempty,min=1,max=5''\<rparr>"

definition Email_body_config :: ValidationConfig where
  "Email_body_config =
     \<lparr>FieldName = ''Email'', Parser = BodyParser, Required = True, Default = [],
      ValidateTags = ''required,email''\<rparr>"

definition Tags_body_config :: ValidationConfig where
  "Tags_body_config =
     \<lparr>FieldName = ''Tags'', Parser = BodyParser, Required = False, Default = [],
      ValidateTags = ''omitempty,unique,dive,min=2,max=20''\<rparr>"

definition required_config :: "string \<Rightarrow> RequestParser \<Rightarrow> ValidationConfig" where
  "required_config name parser =
     \<lparr>FieldName = name, Parser = parser, Required = True, Default = [],
      ValidateTags = ''required''\<rparr>"

definition optional_config :: "string \<Rightarrow> RequestParser \<Rightarrow> ValidationConfig" where
  "optional_config name parser =
     \<lparr>FieldName = name, Parser = parser, Required = False, Default = [],
      ValidateTags = []\<rparr>"

text \<open>The equations that evaluate the model on such inputs.\<close>

lemmas eval_simps =
  setFieldValue_def TrimSpace_def TrimLeft.simps TrimRight.simps strip_leading_def
  strip_trailing_def space_runes_def ParseUint_def digit_val_def FormatUint.simps
  digit_char_def new_request_def

lemmas pipeline_simps =
  ValidateRequest_def parse_config_def FieldByName_def getRawValue_def QueryParser_def
  BodyParser_def ParamParser_def Values_Get_def Values_Has_def StatusOK_def
  StatusBadRequest_def empty_request_def query_request_def validate_Struct_hangs_def
  required_config_def optional_config_def required_error_def

section \<open>Splitting, joining and replacing\<close>

lemma Split_not_Nil: "Split s sep \<noteq> []"
  by (induction s) (auto split: list.splits)

lemma length_Split: "length (Split s sep) = Suc (count_list s sep)"
  by (induction s) (auto split: list.splits simp: Split_not_Nil)

lemma Join_Cons_Cons: "Join ((c # w) # ws) sep = c # Join (w # ws) sep"
  by (cases ws) auto

lemma Join_Nil_Cons: "ws \<noteq> [] \<Longrightarrow> Join ([] # ws) sep = sep @ Join ws sep"
  by (cases ws) auto

text \<open>Replacing every separator is splitting at the separator and joining with the new text.\<close>

lemma Replace_Join_Split: "Replace s c new = Join (Split s c) new"
proof (induction s)
  case Nil
  show ?case by simp
next
  case (Cons a s)
  obtain w ws where sp: "Split s c = w # ws"
    using Split_not_Nil [of s c] by (cases "Split s c") auto
  show ?case
  proof (cases "a = c")
    case True
    then show ?thesis using Cons sp by (simp add: Join_Nil_Cons)
  next
    case False
    then show ?thesis using Cons sp by (simp add: Join_Cons_Cons)
  qed
qed

section \<open>The rules \<^verbatim>\<open>in\<close> and \<^verbatim>\<open>unique\<close>\<close>

lemma in_loop_set: "in_loop vs fv = (fv \<in> set vs)"
  by (induction vs) auto

lemma unique_loop_distinct:
  "unique_loop seen xs =
     (distinct (map Sprintf_v xs) \<and> (\<forall>x \<in> set xs. seen (Sprintf_v x) = None))"
proof (induction xs arbitrary: seen)
  case Nil
  show ?case by simp
next
  case (Cons x xs)
  have "(\<forall>y \<in> set xs. (seen(Sprintf_v x \<mapsto> ())) (Sprintf_v y) = None) =
        (Sprintf_v x \<notin> Sprintf_v ` set xs \<and> (\<forall>y \<in> set xs. seen (Sprintf_v y) = None))"
    by (auto simp: image_iff)
  with Cons show ?case
    by (auto simp: Let_def)
qed

lemma validate_unique_distinct: "validate_unique v = distinct (map Sprintf_v (elems v))"
  by (cases v) (simp_all add: validate_unique_def unique_loop_distinct)

text \<open>
  Claim C7. The rule \<^verbatim>\<open>in\<close> passes exactly when the \<^verbatim>\<open>%v\<close> form of the field is,
  byte for byte, one of the members that the commas of the parameter separate: with the
  parameter \<^verbatim>\<open>a,b,c\<close> exactly for \<^verbatim>\<open>a\<close>, \<^verbatim>\<open>b\<close> and \<^verbatim>\<open>c\<close>, and not for
  \<^verbatim>\<open>B\<close>. The message for the tag \<^verbatim>\<open>in\<close> is \<^verbatim>\<open>Must be one of: \<close> followed by the
  members joined with a comma and a space: \<^verbatim>\<open>Must be one of: a, b, c\<close>.
\<close>

theorem in_rule_membership:
  "validate_in param field = (Sprintf_v field \<in> set (Split param CHR '',''))
   \<and> validate_in ''a,b,c'' field =
       (Sprintf_v field = ''a'' \<or> Sprintf_v field = ''b'' \<or> Sprintf_v field = ''c'')
   \<and> validate_in ''a,b,c'' (StringValue ''b'')
   \<and> \<not> validate_in ''a,b,c'' (StringValue ''B'')
   \<and> \<not> validate_in ''a,b,c'' (StringValue ''a,b'')
   \<and> getValidationMessage (e\<lparr>Tag := ''in''\<rparr>) =
       ''Must be one of: '' @ Join (Split (Param e) CHR '','') '', ''
   \<and> getValidationMessage (e\<lparr>Tag := ''in'', Param := ''a,b,c''\<rparr>) =
       ''Must be one of: a, b, c''"
  by (simp add: validate_in_def in_loop_set getValidationMessage_def
        Replace_Join_Split [symmetric])

text \<open>
  Claim C8. The rule \<^verbatim>\<open>unique\<close> fails exactly when two elements of the collection, at
  different positions, have the same \<^verbatim>\<open>%v\<close> form; for a slice of strings that is when
  the slice has a repeated element. \<^verbatim>\<open>["x","x"]\<close> fails, \<^verbatim>\<open>["x","y"]\<close> passes, and
  the message for the tag \<^verbatim>\<open>unique\<close> is \<^verbatim>\<open>Contains duplicate values\<close>.
\<close>

theorem unique_rule_duplicates:
  "(\<not> validate_unique field) =
     (\<exists>i j. i < j \<and> j < length (elems field)
        \<and> Sprintf_v (elems field ! i) = Sprintf_v (elems field ! j))
   \<and> validate_unique (StringSlice xs) = distinct xs
   \<and> \<not> validate_unique (StringSlice [''x'', ''x''])
   \<and> validate_unique (StringSlice [''x'', ''y''])
   \<and> getValidationMessage (e\<lparr>Tag := ''unique''\<rparr>) = ''Contains duplicate values''"
proof -
  have "(\<not> distinct (map Sprintf_v (elems field))) =
     (\<exists>i j. i < j \<and> j < length (elems field)
        \<and> Sprintf_v (elems field ! i) = Sprintf_v (elems field ! j))"
    (is "?L = ?R")
  proof
    assume ?L
    then obtain i j where "i < length (elems field)" "j < length (elems field)" "i \<noteq> j"
      "Sprintf_v (elems field ! i) = Sprintf_v (elems field ! j)"
      by (auto simp: distinct_conv_nth)
    then show ?R
      by (cases "i < j") (metis, metis linorder_neqE_nat)
  next
    assume ?R
    then obtain i j where ij: "i < j" "j < length (elems field)"
      "Sprintf_v (elems field ! i) = Sprintf_v (elems field ! j)"
      by blast
    then have "i < length (elems field)" "i \<noteq> j" by auto
    with ij show ?L unfolding distinct_conv_nth length_map
      by (metis nth_map)
  qed
  moreover have "map Sprintf_v (map StringValue xs) = xs" for xs
    by (induction xs) auto
  ultimately show ?thesis
    by (simp add: validate_unique_distinct getValidationMessage_def)
qed

section \<open>Trimming\<close>

lemma strip_leading_None_iff:
  "(strip_leading s = None) = (\<forall>r \<in> set space_runes. take (length r) s \<noteq> r)"
proof -
  have "(strip_leading s = None) = (find (\<lambda>r. take (length r) s = r) space_runes = None)"
    by (simp add: strip_leading_def split: option.splits)
  also have "\<dots> = (\<forall>r \<in> set space_runes. take (length r) s \<noteq> r)"
    unfolding find_None_iff by blast
  finally show ?thesis .
qed

lemma strip_trailing_None_iff:
  "(strip_trailing s = None) =
     (\<forall>r \<in> set space_runes. \<not> (length r \<le> length s \<and> drop (length s - length r) s = r))"
proof -
  have "(strip_trailing s = None) =
     (find (\<lambda>r. length r \<le> length s \<and> drop (length s - length r) s = r) space_runes = None)"
    by (simp add: strip_trailing_def split: option.splits)
  also have "\<dots> =
     (\<forall>r \<in> set space_runes. \<not> (length r \<le> length s \<and> drop (length s - length r) s = r))"
    unfolding find_None_iff by blast
  finally show ?thesis .
qed

lemma strip_trailing_SomeD:
  "strip_trailing s = Some t \<Longrightarrow> \<exists>k. t = take k s"
  by (auto simp: strip_trailing_def split: option.splits)

lemma TrimLeft_no_leading: "strip_leading (TrimLeft s) = None"
  by (induction s rule: TrimLeft.induct) (subst TrimLeft.simps, simp split: option.splits)

lemma TrimRight_no_trailing: "strip_trailing (TrimRight s) = None"
  by (induction s rule: TrimRight.induct) (subst TrimRight.simps, simp split: option.splits)

lemma strip_leading_take:
  assumes "strip_leading s = None"
  shows "strip_leading (take k s) = None"
proof -
  have "take (length r) (take k s) \<noteq> r" if r: "r \<in> set space_runes" for r
  proof
    assume eq: "take (length r) (take k s) = r"
    then have "length r \<le> k"
      by (metis length_take min.cobounded2 min.commute order_trans)
    then have "take (length r) s = r" using eq by (simp add: min_def)
    with assms r show False by (simp add: strip_leading_None_iff)
  qed
  then show ?thesis by (simp add: strip_leading_None_iff)
qed

lemma TrimRight_keeps_no_leading:
  "strip_leading s = None \<Longrightarrow> strip_leading (TrimRight s) = None"
proof (induction s rule: TrimRight.induct)
  case (1 s)
  show ?case
  proof (cases "strip_trailing s")
    case None
    then show ?thesis using 1 by (subst TrimRight.simps) simp
  next
    case (Some t)
    then obtain k where "t = take k s" using strip_trailing_SomeD by blast
    then have "strip_leading t = None" using 1(2) by (simp add: strip_leading_take)
    then show ?thesis using 1(1) Some by (subst TrimRight.simps) simp
  qed
qed

lemma TrimSpace_trimmed:
  "strip_leading (TrimSpace s) = None \<and> strip_trailing (TrimSpace s) = None"
  by (simp add: TrimSpace_def TrimRight_no_trailing TrimRight_keeps_no_leading TrimLeft_no_leading)

lemma TrimSpace_Nil: "TrimSpace [] = []"
  by code_simp

section \<open>Decimal digits\<close>

lemma digit_val_digit_char: "d < 10 \<Longrightarrow> digit_val (digit_char d) = Some d"
proof -
  assume "d < 10"
  then have "d = 0 \<or> d = 1 \<or> d = 2 \<or> d = 3 \<or> d = 4 \<or> d = 5 \<or> d = 6 \<or> d = 7 \<or> d = 8 \<or> d = 9"
    by arith
  then show ?thesis
    by (auto simp: digit_val_def digit_char_def)
qed

lemma parse_digits_append:
  "parse_digits (xs @ ys) acc =
     (case parse_digits xs acc of None \<Rightarrow> None | Some a \<Rightarrow> parse_digits ys a)"
  by (induction xs arbitrary: acc) (auto split: option.splits)

lemma parse_digits_FormatUint: "parse_digits (FormatUint n) 0 = Some n"
proof (induction n rule: FormatUint.induct)
  case (1 n)
  show ?case
  proof (cases "n < 10")
    case True
    then show ?thesis
      by (subst FormatUint.simps) (simp add: digit_val_digit_char)
  next
    case False
    then have "parse_digits (FormatUint (n div 10)) 0 = Some (n div 10)"
      using 1 by simp
    then show ?thesis using False
      by (subst FormatUint.simps) (simp add: parse_digits_append digit_val_digit_char)
  qed
qed

lemma FormatUint_digits:
  "FormatUint n \<noteq> [] \<and> (\<forall>c \<in> set (FormatUint n). digit_val c \<noteq> None)"
proof (induction n rule: FormatUint.induct)
  case (1 n)
  show ?case
  proof (cases "n < 10")
    case True
    then show ?thesis
      by (subst (1 2) FormatUint.simps) (simp add: digit_val_digit_char)
  next
    case False
    then show ?thesis using 1
      by (subst (1 2) FormatUint.simps) (simp add: digit_val_digit_char)
  qed
qed

lemma ParseUint_FormatUint: "ParseUint (FormatUint (unat (w :: 64 word))) = Some w"
proof -
  have "unat w < 2 ^ 64" using unsigned_less [of w] by simp
  then show ?thesis
    by (simp add: ParseUint_def FormatUint_digits parse_digits_FormatUint)
qed

text \<open>A string that starts and ends with a digit has no white space to trim.\<close>

lemma digit_not_leading:
  "digit_val c \<noteq> None \<Longrightarrow> strip_leading (c # cs) = None"
  by (auto simp: strip_leading_None_iff space_runes_def digit_val_def Let_def split: if_splits)

lemma suffix_last:
  assumes "r \<noteq> []" "length r \<le> length s" "drop (length s - length r) s = r"
  shows "last r = last s"
proof -
  have "length s - length r < length s" using assms(1,2) by (cases r) auto
  then have "last (drop (length s - length r) s) = last s" by (rule last_drop)
  with assms(3) show ?thesis by simp
qed

lemma digit_not_last_of_rune:
  "digit_val c \<noteq> None \<Longrightarrow> \<forall>r \<in> set space_runes. r \<noteq> [] \<and> last r \<noteq> c"
  by (auto simp: space_runes_def digit_val_def Let_def split: if_splits)

lemma digit_not_trailing:
  assumes "s \<noteq> []" "digit_val (last s) \<noteq> None"
  shows "strip_trailing s = None"
proof -
  have "\<forall>r \<in> set space_runes. r \<noteq> [] \<and> last r \<noteq> last s"
    using assms(2) by (rule digit_not_last_of_rune)
  then show ?thesis
    unfolding strip_trailing_None_iff using suffix_last by blast
qed

lemma TrimSpace_digits:
  assumes "s \<noteq> []" "\<forall>c \<in> set s. digit_val c \<noteq> None"
  shows "TrimSpace s = s"
proof -
  obtain c cs where s: "s = c # cs" using assms(1) by (cases s) auto
  then have "strip_leading s = None" using assms(2) by (simp add: digit_not_leading)
  then have l: "TrimLeft s = s" by (subst TrimLeft.simps) simp
  have "strip_trailing s = None" using assms by (simp add: digit_not_trailing)
  then have "TrimRight s = s" by (subst TrimRight.simps) simp
  with l show ?thesis by (simp add: TrimSpace_def)
qed

lemma comma_not_digit: "\<forall>c \<in> set (FormatUint n). c \<noteq> CHR '',''"
  using FormatUint_digits [of n] by (auto simp: digit_val_def)

section \<open>Splitting a joined list\<close>

lemma Split_no_sep: "sep \<notin> set x \<Longrightarrow> Split x sep = [x]"
  by (induction x) auto

lemma Split_append_sep: "sep \<notin> set x \<Longrightarrow> Split (x @ sep # rest) sep = x # Split rest sep"
  by (induction x) auto

lemma Split_Join:
  "xs \<noteq> [] \<Longrightarrow> \<forall>x \<in> set xs. sep \<notin> set x \<Longrightarrow> Split (Join xs [sep]) sep = xs"
proof (induction xs "[sep]" rule: Join.induct)
  case 1
  then show ?case by simp
next
  case (2 x)
  then show ?case by (simp add: Split_no_sep)
next
  case (3 x y ys)
  then show ?case by (simp add: Split_append_sep)
qed

section \<open>The two loops of the slice branch\<close>

lemma trim_loop_map:
  "length sl = i + length vs \<Longrightarrow> trim_loop i vs sl = take i sl @ map TrimSpace vs"
proof (induction vs arbitrary: i sl)
  case Nil
  then show ?case by simp
next
  case (Cons v vs)
  then have "trim_loop (i + 1) vs (sl[i := TrimSpace v]) =
      take (i + 1) (sl[i := TrimSpace v]) @ map TrimSpace vs"
    by simp
  moreover have "take (i + 1) (sl[i := TrimSpace v]) = take i sl @ [TrimSpace v]"
    using Cons.prems by (simp add: take_Suc_conv_app_nth)
  ultimately show ?case by simp
qed

lemma setFieldValue_Tags:
  "setFieldValue Tags_field raw cfg req =
     Done (req\<lparr>Tags := map TrimSpace (Split raw CHR '','')\<rparr>)"
  by (simp add: setFieldValue_def trim_loop_map)

lemma parse_loop_all:
  "\<forall>v \<in> set vs. ParseUint (TrimSpace v) \<noteq> None \<Longrightarrow> length sl = i + length vs \<Longrightarrow>
   parse_loop i vs sl = Inr (take i sl @ map (\<lambda>v. the (ParseUint (TrimSpace v))) vs)"
proof (induction vs arbitrary: i sl)
  case Nil
  then show ?case by simp
next
  case (Cons v vs)
  then obtain w where w: "ParseUint (TrimSpace v) = Some w" by auto
  have "parse_loop (i + 1) vs (sl[i := w]) =
      Inr (take (i + 1) (sl[i := w]) @ map (\<lambda>v. the (ParseUint (TrimSpace v))) vs)"
    using Cons by simp
  moreover have "take (i + 1) (sl[i := w]) = take i sl @ [w]"
    using Cons.prems by (simp add: take_Suc_conv_app_nth)
  ultimately show ?case using w by simp
qed

lemma parse_loop_first_failure:
  "k < length vs \<Longrightarrow> ParseUint (TrimSpace (vs ! k)) = None \<Longrightarrow>
   \<forall>j < k. ParseUint (TrimSpace (vs ! j)) \<noteq> None \<Longrightarrow>
   parse_loop i vs sl = Inl (''element '' @ FormatUint (i + k + 1) @ '': must be positive integer'')"
proof (induction vs arbitrary: i k sl)
  case Nil
  then show ?case by simp
next
  case (Cons v vs)
  show ?case
  proof (cases k)
    case 0
    then show ?thesis using Cons.prems by simp
  next
    case (Suc k')
    then obtain w where w: "ParseUint (TrimSpace v) = Some w"
      using Cons.prems(3) by force
    have "parse_loop (i + 1) vs (sl[i := w]) =
        Inl (''element '' @ FormatUint (i + 1 + k' + 1) @ '': must be positive integer'')"
    proof (rule Cons.IH)
      show "k' < length vs" using Cons.prems(1) Suc by simp
      show "ParseUint (TrimSpace (vs ! k')) = None" using Cons.prems(2) Suc by simp
      show "\<forall>j<k'. ParseUint (TrimSpace (vs ! j)) \<noteq> None"
        using Cons.prems(3) Suc by auto
    qed
    then show ?thesis using w Suc by simp
  qed
qed

lemma parse_loop_Inr_all:
  "parse_loop i vs sl = Inr out \<Longrightarrow> \<forall>v \<in> set vs. ParseUint (TrimSpace v) \<noteq> None"
  by (induction vs arbitrary: i sl) (auto split: option.splits)

lemma setFieldValue_IDs:
  "setFieldValue IDs_field raw cfg req =
     (case parse_loop 0 (Split raw CHR '','') (replicate (length (Split raw CHR '','')) 0) of
        Inl msg \<Rightarrow> Failed msg
      | Inr sl \<Rightarrow> Done (req\<lparr>IDs := sl\<rparr>))"
  by (simp add: setFieldValue_def Let_def split: sum.splits)

lemma setFieldValue_IDs_all:
  assumes "\<forall>v \<in> set (Split raw CHR '',''). ParseUint (TrimSpace v) \<noteq> None"
  shows "setFieldValue IDs_field raw cfg req =
     Done (req\<lparr>IDs := map (\<lambda>v. the (ParseUint (TrimSpace v))) (Split raw CHR '','')\<rparr>)"
  using parse_loop_all [OF assms, of "replicate (length (Split raw CHR '','')) 0" 0]
  by (simp add: setFieldValue_IDs)

lemma setFieldValue_IDs_failure:
  assumes "k < length (Split raw CHR '','')"
    and "ParseUint (TrimSpace (Split raw CHR '','' ! k)) = None"
    and "list_all (\<lambda>v. ParseUint (TrimSpace v) \<noteq> None) (take k (Split raw CHR '',''))"
  shows "setFieldValue IDs_field raw cfg req =
     Failed (''element '' @ FormatUint (k + 1) @ '': must be positive integer'')"
proof -
  have "\<forall>j<k. ParseUint (TrimSpace (Split raw CHR '','' ! j)) \<noteq> None"
  proof (intro allI impI)
    fix j assume "j < k"
    then have "Split raw CHR '','' ! j \<in> set (take k (Split raw CHR '',''))"
      using assms(1) by (metis in_set_conv_nth length_take min.absorb4 nth_take)
    with assms(3) show "ParseUint (TrimSpace (Split raw CHR '','' ! j)) \<noteq> None"
      by (simp add: list_all_iff)
  qed
  from parse_loop_first_failure [OF assms(1,2) this, of 0]
  show ?thesis by (simp add: setFieldValue_IDs)
qed

section \<open>Text made of white space and commas\<close>

text \<open>
  Every white-space rune at the start of a string is stripped as a whole, and none holds
  a comma. So when a text is a sequence of white-space runes and commas, every segment
  between its commas trims to the empty string.
\<close>

lemma strip_leading_runes:
  "list_all (\<lambda>r. strip_leading (r @ rest) = Some rest) space_runes"
  by (subst space_runes_def, simp) (simp add: strip_leading_def space_runes_def)

lemma strip_leading_rune:
  "r \<in> set space_runes \<Longrightarrow> strip_leading (r @ rest) = Some rest"
  using strip_leading_runes [of rest] by (simp add: list_all_iff)

lemma comma_not_in_runes: "list_all (\<lambda>r. CHR '','' \<notin> set r) space_runes"
  by (simp add: space_runes_def)

lemma comma_not_in_rune: "r \<in> set space_runes \<Longrightarrow> CHR '','' \<notin> set r"
  using comma_not_in_runes by (simp add: list_all_iff)

lemma TrimLeft_rune: "r \<in> set space_runes \<Longrightarrow> TrimLeft (r @ rest) = TrimLeft rest"
  by (subst TrimLeft.simps) (simp add: strip_leading_rune)

lemma TrimLeft_Nil: "TrimLeft [] = []"
  by code_simp

lemma TrimRight_Nil: "TrimRight [] = []"
  by code_simp

lemma Split_append_no_sep:
  "sep \<notin> set x \<Longrightarrow>
   Split (x @ rest) sep = (x @ hd (Split rest sep)) # tl (Split rest sep)"
proof (induction x)
  case Nil
  then show ?case using Split_not_Nil [of rest sep] by simp
next
  case (Cons c x)
  then show ?case by (auto split: list.splits)
qed

lemma segments_of_space:
  "\<forall>t \<in> set ts. t \<in> set space_runes \<or> t = '','' \<Longrightarrow>
   \<forall>seg \<in> set (Split (concat ts) CHR '',''). TrimLeft seg = []"
proof (induction ts)
  case Nil
  then show ?case by (simp add: TrimLeft_Nil)
next
  case (Cons t ts)
  then have IH: "\<forall>seg \<in> set (Split (concat ts) CHR '',''). TrimLeft seg = []" by simp
  obtain w ws where sp: "Split (concat ts) CHR '','' = w # ws"
    using Split_not_Nil [of "concat ts" "CHR '',''"] by (cases "Split (concat ts) CHR '',''") auto
  from Cons.prems have "t \<in> set space_runes \<or> t = '',''" by simp
  then show ?case
  proof
    assume r: "t \<in> set space_runes"
    then have "Split (t @ concat ts) CHR '','' = (t @ w) # ws"
      using sp by (simp add: Split_append_no_sep comma_not_in_rune)
    moreover have "TrimLeft (t @ w) = []" using r IH sp by (simp add: TrimLeft_rune)
    ultimately show ?thesis using IH sp by simp
  next
    assume "t = '',''"
    then show ?thesis using IH by (simp add: TrimLeft_Nil)
  qed
qed

lemma TrimSpace_segments_of_space:
  assumes "\<forall>t \<in> set ts. t \<in> set space_runes \<or> t = '',''"
  shows "map TrimSpace (Split (concat ts) CHR '','') =
           replicate (Suc (count_list (concat ts) CHR '','')) []"
proof -
  have "\<forall>seg \<in> set (Split (concat ts) CHR '',''). TrimSpace seg = []"
    using segments_of_space [OF assms] by (simp add: TrimSpace_def TrimRight_Nil)
  then have "map TrimSpace (Split (concat ts) CHR '','') =
      replicate (length (Split (concat ts) CHR '','')) []"
    by (simp add: map_replicate_const [symmetric] cong: map_cong)
  then show ?thesis by (simp add: length_Split)
qed

section \<open>Coercion of the list fields\<close>

text \<open>
  Claim C4, as the code has it. Coercing a raw string into the string list
  \<^verbatim>\<open>Tags\<close> never fails: the field becomes the list of the segments between the commas
  of the raw text, each trimmed, so that no element starts or ends with a white-space
  rune. The list has one element more than the raw text has commas. It is therefore never
  empty: the empty raw text gives the list whose only element is the empty string, and a
  raw text that is a sequence of white-space runes and commas gives a list of empty
  strings, one more than it has commas.
\<close>

theorem string_list_coercion:
  "setFieldValue Tags_field raw cfg req =
      Done (req\<lparr>Tags := map TrimSpace (Split raw CHR '','')\<rparr>)
   \<and> length (map TrimSpace (Split raw CHR '','')) = Suc (count_list raw CHR '','')
   \<and> list_all (\<lambda>e. strip_leading e = None \<and> strip_trailing e = None)
        (map TrimSpace (Split raw CHR '',''))
   \<and> setFieldValue Tags_field [] cfg req = Done (req\<lparr>Tags := [[]]\<rparr>)
   \<and> (list_all (\<lambda>t. t \<in> set space_runes \<or> t = '','') ts \<longrightarrow>
        setFieldValue Tags_field (concat ts) cfg req =
          Done (req\<lparr>Tags := replicate (Suc (count_list (concat ts) CHR '','')) []\<rparr>))"
proof -
  let ?xs = "map TrimSpace (Split raw CHR '','')"
  have coerced: "setFieldValue Tags_field raw cfg req = Done (req\<lparr>Tags := ?xs\<rparr>)"
    by (rule setFieldValue_Tags)
  have len: "length ?xs = Suc (count_list raw CHR '','')"
    by (simp add: length_Split)
  have trimmed: "list_all (\<lambda>e. strip_leading e = None \<and> strip_trailing e = None) ?xs"
    by (simp add: list_all_iff TrimSpace_trimmed)
  have "setFieldValue Tags_field [] cfg req =
      Done (req\<lparr>Tags := map TrimSpace (Split [] CHR '','')\<rparr>)"
    by (rule setFieldValue_Tags)
  then have empty: "setFieldValue Tags_field [] cfg req = Done (req\<lparr>Tags := [[]]\<rparr>)"
    by (simp add: TrimSpace_Nil)
  have space: "setFieldValue Tags_field (concat ts) cfg req =
      Done (req\<lparr>Tags := replicate (Suc (count_list (concat ts) CHR '','')) []\<rparr>)"
    if "list_all (\<lambda>t. t \<in> set space_runes \<or> t = '','') ts"
  proof -
    from that have "\<forall>t \<in> set ts. t \<in> set space_runes \<or> t = '',''"
      by (simp add: list_all_iff)
    then have "map TrimSpace (Split (concat ts) CHR '','') =
        replicate (Suc (count_list (concat ts) CHR '','')) []"
      by (rule TrimSpace_segments_of_space)
    then show ?thesis
      using setFieldValue_Tags [of "concat ts" cfg req] by simp
  qed
  from coerced len trimmed empty space show ?thesis by blast
qed

text \<open>
  An instance: a space, a no-break space, a comma and a tab give two empty strings; and
  \<^verbatim>\<open>" go , web "\<close> gives \<^verbatim>\<open>go\<close> and \<^verbatim>\<open>web\<close>.
\<close>

theorem string_list_coercion_witness:
  "list_all (\<lambda>t. t \<in> set space_runes \<or> t = '','')
     ['' '', [CHR 0xC2, CHR 0xA0], '','', [CHR 0x09]]
   \<and> setFieldValue Tags_field (concat ['' '', [CHR 0xC2, CHR 0xA0], '','', [CHR 0x09]])
        (optional_config ''Tags'' QueryParser) (new_request []) =
      Done ((new_request [])\<lparr>Tags := [[], []]\<rparr>)
   \<and> setFieldValue Tags_field '' go , web '' (optional_config ''Tags'' QueryParser)
        (new_request []) =
      Done ((new_request [])\<lparr>Tags := [''go'', ''web'']\<rparr>)"
proof -
  let ?ts = "['' '', [CHR 0xC2, CHR 0xA0], '','', [CHR 0x09]]"
  have h: "list_all (\<lambda>t. t \<in> set space_runes \<or> t = '','') ?ts"
    by (simp add: space_runes_def)
  have c: "Suc (count_list (concat ?ts) CHR '','') = 2"
    by simp
  have m: "map TrimSpace (Split '' go , web '' CHR '','') = [''go'', ''web'']"
    by simp (simp add: eval_simps)
  note th = string_list_coercion [where ts = ?ts and cfg = "optional_config ''Tags'' QueryParser"
      and req = "new_request []" and raw = "'' go , web ''"]
  from th h have "setFieldValue Tags_field (concat ?ts) (optional_config ''Tags'' QueryParser)
      (new_request []) =
      Done ((new_request [])\<lparr>Tags := replicate (Suc (count_list (concat ?ts) CHR '','')) []\<rparr>)"
    by blast
  then have a: "setFieldValue Tags_field (concat ?ts) (optional_config ''Tags'' QueryParser)
      (new_request []) = Done ((new_request [])\<lparr>Tags := [[], []]\<rparr>)"
    unfolding c by (simp add: numeral_2_eq_2)
  from th have "setFieldValue Tags_field '' go , web '' (optional_config ''Tags'' QueryParser)
      (new_request []) =
      Done ((new_request [])\<lparr>Tags := map TrimSpace (Split '' go , web '' CHR '','')\<rparr>)"
    by blast
  then have b: "setFieldValue Tags_field '' go , web '' (optional_config ''Tags'' QueryParser)
      (new_request []) = Done ((new_request [])\<lparr>Tags := [''go'', ''web'']\<rparr>)"
    unfolding m .
  from h a b show ?thesis by blast
qed

text \<open>
  Claim C4 as stated fails: the empty raw text does not give the empty list but a list of
  one element, and raw text made of a comma between spaces gives two empty elements. For
  a request with the empty parameter \<^verbatim>\<open>Tags\<close> the loop ends with the list of one
  empty string in the record.
\<close>

theorem empty_input_gives_one_element:
  "setFieldValue Tags_field [] (optional_config ''Tags'' QueryParser) (new_request []) =
     Done ((new_request [])\<lparr>Tags := [[]]\<rparr>)
   \<and> setFieldValue Tags_field [] (optional_config ''Tags'' QueryParser) (new_request []) \<noteq>
     Done ((new_request [])\<lparr>Tags := []\<rparr>)
   \<and> setFieldValue Tags_field '' , '' (optional_config ''Tags'' QueryParser) (new_request []) =
     Done ((new_request [])\<lparr>Tags := [[], []]\<rparr>)
   \<and> parse_configs (query_request ''Tags'' []) [optional_config ''Tags'' QueryParser]
       (new_request ''search'', []) =
     Some ((new_request ''search'')\<lparr>Tags := [[]]\<rparr>, [])"
  by (simp add: eval_simps pipeline_simps)

text \<open>
  Claim C6. Coercing a raw string into the unsigned-integer list \<^verbatim>\<open>IDs\<close> splits at
  the commas, trims each segment and parses it with \<^verbatim>\<open>ParseUint\<close> in base 10. When
  every segment parses, the field becomes the list of the values. When the segment at
  position \<open>k\<close> (counted from 0) is the first that does not parse, the coercion fails
  with the message \<^verbatim>\<open>element N: must be positive integer\<close> where \<open>N\<close> is \<open>k + 1\<close>
  in decimal; the visit of the descriptor then appends this one error, with the raw text
  as its value, and leaves the record as it was, so the handler answers 400 with exactly
  this error for a list of this one descriptor. In the fresh record \<^verbatim>\<open>IDs\<close> is empty.
\<close>

theorem uint_list_coercion:
  "(list_all (\<lambda>v. ParseUint (TrimSpace v) \<noteq> None) (Split raw CHR '','') \<longrightarrow>
      setFieldValue IDs_field raw cfg req =
        Done (req\<lparr>IDs := map (\<lambda>v. the (ParseUint (TrimSpace v))) (Split raw CHR '','')\<rparr>))
   \<and> (k < length (Split raw CHR '','')
        \<and> ParseUint (TrimSpace (Split raw CHR '','' ! k)) = None
        \<and> list_all (\<lambda>v. ParseUint (TrimSpace v) \<noteq> None) (take k (Split raw CHR '','')) \<longrightarrow>
      setFieldValue IDs_field raw cfg req =
        Failed (''element '' @ FormatUint (k + 1) @ '': must be positive integer'')
      \<and> (FieldName cfg = ''IDs'' \<and> getRawValue r cfg = (raw, True) \<longrightarrow>
           parse_config r cfg (req, errors) =
             Some (req, errors @
               [\<lparr>Field = ''IDs'',
                 Message = ''element '' @ FormatUint (k + 1) @ '': must be positive integer'',
                 Value = raw\<rparr>])
           \<and> ValidateRequest V [cfg] grp r =
               Respond StatusBadRequest
                 (ErrorBody \<lparr>Code = StatusBadRequest, Message = ''Invalid request data'',
                   Errors =
                     [\<lparr>Field = ''IDs'',
                       Message = ''element '' @ FormatUint (k + 1) @ '': must be positive integer'',
                       Value = raw\<rparr>]\<rparr>)))
   \<and> IDs (new_request grp) = []"
proof (intro conjI impI)
  assume "list_all (\<lambda>v. ParseUint (TrimSpace v) \<noteq> None) (Split raw CHR '','')"
  then show "setFieldValue IDs_field raw cfg req =
        Done (req\<lparr>IDs := map (\<lambda>v. the (ParseUint (TrimSpace v))) (Split raw CHR '','')\<rparr>)"
    by (simp add: setFieldValue_IDs_all list_all_iff)
next
  assume a: "k < length (Split raw CHR '','')
        \<and> ParseUint (TrimSpace (Split raw CHR '','' ! k)) = None
        \<and> list_all (\<lambda>v. ParseUint (TrimSpace v) \<noteq> None) (take k (Split raw CHR '',''))"
  then show f: "setFieldValue IDs_field raw cfg req =
        Failed (''element '' @ FormatUint (k + 1) @ '': must be positive integer'')"
    by (blast intro: setFieldValue_IDs_failure)
  assume b: "FieldName cfg = ''IDs'' \<and> getRawValue r cfg = (raw, True)"
  from a have f': "setFieldValue IDs_field raw cfg rq =
        Failed (''element '' @ FormatUint (k + 1) @ '': must be positive integer'')" for rq
    by (blast intro: setFieldValue_IDs_failure)
  from b f' show "parse_config r cfg (req, errors) =
             Some (req, errors @
               [\<lparr>Field = ''IDs'',
                 Message = ''element '' @ FormatUint (k + 1) @ '': must be positive integer'',
                 Value = raw\<rparr>])"
    by (simp add: parse_config_def FieldByName_def)
  from b f' show "ValidateRequest V [cfg] grp r =
               Respond StatusBadRequest
                 (ErrorBody \<lparr>Code = StatusBadRequest, Message = ''Invalid request data'',
                   Errors =
                     [\<lparr>Field = ''IDs'',
                       Message = ''element '' @ FormatUint (k + 1) @ '': must be positive integer'',
                       Value = raw\<rparr>]\<rparr>)"
    by (simp add: ValidateRequest_def parse_config_def FieldByName_def)
next
  show "IDs (new_request grp) = []" by (simp add: new_request_def)
qed

theorem uint_list_coercion_witness:
  "list_all (\<lambda>v. ParseUint (TrimSpace v) \<noteq> None) (Split ''1, 2,007'' CHR '','')
   \<and> setFieldValue IDs_field ''1, 2,007'' IDs_query_config (new_request []) =
        Done ((new_request [])\<lparr>IDs := [1, 2, 7]\<rparr>)
   \<and> (2 :: nat) < length (Split ''1, 2,x'' CHR '','')
   \<and> ParseUint (TrimSpace (Split ''1, 2,x'' CHR '','' ! 2)) = None
   \<and> list_all (\<lambda>v. ParseUint (TrimSpace v) \<noteq> None) (take 2 (Split ''1, 2,x'' CHR '',''))
   \<and> setFieldValue IDs_field ''1, 2,x'' IDs_query_config (new_request []) =
        Failed ''element 3: must be positive integer''
   \<and> getRawValue (query_request ''IDs'' ''1, 2,x'') IDs_query_config = (''1, 2,x'', True)
   \<and> ValidateRequest validate_Struct_hangs [IDs_query_config] ''update''
        (query_request ''IDs'' ''1, 2,x'') =
        Respond 400
          (ErrorBody \<lparr>Code = 400, Message = ''Invalid request data'',
             Errors = [\<lparr>Field = ''IDs'', Message = ''element 3: must be positive integer'',
                        Value = ''1, 2,x''\<rparr>]\<rparr>)"
proof -
  have h1: "list_all (\<lambda>v. ParseUint (TrimSpace v) \<noteq> None) (Split ''1, 2,007'' CHR '','')"
    by simp (simp add: eval_simps)
  have h2: "(2 :: nat) < length (Split ''1, 2,x'' CHR '','')
      \<and> ParseUint (TrimSpace (Split ''1, 2,x'' CHR '','' ! 2)) = None
      \<and> list_all (\<lambda>v. ParseUint (TrimSpace v) \<noteq> None) (take 2 (Split ''1, 2,x'' CHR '',''))"
    by simp (simp add: eval_simps)
  have h3: "FieldName IDs_query_config = ''IDs''
      \<and> getRawValue (query_request ''IDs'' ''1, 2,x'') IDs_query_config = (''1, 2,x'', True)"
    by (simp add: IDs_query_config_def query_request_def getRawValue_def QueryParser_def
          BodyParser_def Values_Get_def Values_Has_def)
  have v: "map (\<lambda>v. the (ParseUint (TrimSpace v))) (Split ''1, 2,007'' CHR '','') = [1, 2, 7]"
    by simp (simp add: eval_simps)
  have f: "FormatUint (2 + 1) = ''3''"
    by (simp add: eval_simps)
  from uint_list_coercion [where raw = "''1, 2,007''" and cfg = IDs_query_config
        and req = "new_request []"] h1 v
  have a: "setFieldValue IDs_field ''1, 2,007'' IDs_query_config (new_request []) =
        Done ((new_request [])\<lparr>IDs := [1, 2, 7]\<rparr>)"
    by simp
  from uint_list_coercion [where raw = "''1, 2,x''" and cfg = IDs_query_config
        and req = "new_request []" and k = 2 and r = "query_request ''IDs'' ''1, 2,x''"
        and V = validate_Struct_hangs and grp = "''update''"] h2 h3 f
  have b: "setFieldValue IDs_field ''1, 2,x'' IDs_query_config (new_request []) =
        Failed ''element 3: must be positive integer''
     \<and> ValidateRequest validate_Struct_hangs [IDs_query_config] ''update''
        (query_request ''IDs'' ''1, 2,x'') =
        Respond 400
          (ErrorBody \<lparr>Code = 400, Message = ''Invalid request data'',
             Errors = [\<lparr>Field = ''IDs'', Message = ''element 3: must be positive integer'',
                        Value = ''1, 2,x''\<rparr>]\<rparr>)"
    by (simp add: StatusBadRequest_def)
  from h1 h2 h3 a b show ?thesis by simp
qed

text \<open>
  Claim C9. When a raw text coerces to the list \<open>L\<close> (the \<^verbatim>\<open>IDs\<close> of the record
  that \<open>setFieldValue\<close> returns), coercing the comma-joined decimal forms of \<open>L\<close>
  succeeds as well, for any descriptor and any record, and sets the field to \<open>L\<close>.
\<close>

theorem uint_list_roundtrip:
  assumes "setFieldValue IDs_field raw cfg req = Done req'"
  shows "setFieldValue IDs_field (comma_joined (IDs req')) cfg' req'' =
           Done (req''\<lparr>IDs := IDs req'\<rparr>)"
proof -
  let ?vs = "Split raw CHR '',''"
  let ?P = "\<lambda>v. ParseUint (TrimSpace v)"
  let ?fmt = "\<lambda>w :: 64 word. FormatUint (unat w)"
  from assms obtain sl where
    pl: "parse_loop 0 ?vs (replicate (length ?vs) 0) = Inr sl" and req': "req' = req\<lparr>IDs := sl\<rparr>"
    by (auto simp: setFieldValue_IDs split: sum.splits)
  from pl have ok: "\<forall>v \<in> set ?vs. ?P v \<noteq> None" by (rule parse_loop_Inr_all)
  from parse_loop_all [OF ok, of "replicate (length ?vs) 0" 0] pl
  have sl: "sl = map (\<lambda>v. the (?P v)) ?vs" by simp
  then have ne: "sl \<noteq> []" by (simp add: Split_not_Nil)
  have L: "IDs req' = sl" using req' by simp
  have "Split (Join (map ?fmt sl) [CHR '','']) CHR '','' = map ?fmt sl"
    using ne comma_not_digit by (intro Split_Join) auto
  then have sp: "Split (comma_joined sl) CHR '','' = map ?fmt sl"
    by (simp add: comma_joined_def)
  have P: "?P (?fmt w) = Some w" for w
    by (simp add: TrimSpace_digits FormatUint_digits ParseUint_FormatUint)
  then have "\<forall>v \<in> set (map ?fmt sl). ?P v \<noteq> None" by auto
  then have "setFieldValue IDs_field (comma_joined sl) cfg' req'' =
     Done (req''\<lparr>IDs := map (\<lambda>v. the (?P v)) (map ?fmt sl)\<rparr>)"
    using setFieldValue_IDs_all [of "comma_joined sl" cfg' req''] sp by simp
  moreover have "map (\<lambda>v. the (?P v)) (map ?fmt sl) = sl"
    by (simp add: P map_idI)
  ultimately show ?thesis using L by simp
qed

theorem uint_list_roundtrip_witness:
  "setFieldValue IDs_field ''1, 2,007'' IDs_query_config (new_request []) =
      Done ((new_request [])\<lparr>IDs := [1, 2, 7]\<rparr>)
   \<and> comma_joined [1, 2, 7] = ''1,2,7''
   \<and> setFieldValue IDs_field ''1,2,7'' IDs_query_config (new_request []) =
      Done ((new_request [])\<lparr>IDs := [1, 2, 7]\<rparr>)"
proof -
  have h: "setFieldValue IDs_field ''1, 2,007'' IDs_query_config (new_request []) =
      Done ((new_request [])\<lparr>IDs := [1, 2, 7]\<rparr>)"
    by (simp add: eval_simps)
  have c: "comma_joined [1, 2, 7] = ''1,2,7''"
    by (simp add: comma_joined_def eval_simps)
  from uint_list_roundtrip [OF h, of IDs_query_config "new_request []"] h c
  show ?thesis by (simp add: new_request_def)
qed

section \<open>The loop over the descriptors\<close>

lemma FieldByName_validationGroup:
  "(FieldByName name = Some validationGroup_field) = (name = ''validationGroup'')"
  by (simp add: FieldByName_def)

lemma parse_loop_Inl_not_unsupported:
  "parse_loop i vs sl = Inl m \<Longrightarrow> take 8 m = ''element ''"
  by (induction vs arbitrary: i sl) (auto split: option.splits)

lemma setFieldValue_Panic_iff:
  "(setFieldValue f raw cfg req = Panic) = (f = validationGroup_field)"
  by (cases f) (auto simp: setFieldValue_def Let_def split: option.splits sum.splits)

lemma setFieldValue_Failed_indep:
  "(setFieldValue f raw cfg req = Failed m) = (setFieldValue f raw cfg req0 = Failed m)"
  by (cases f) (auto simp: setFieldValue_def Let_def split: option.splits sum.splits)

lemma parse_config_None_cases:
  "(parse_config r cfg st = None) =
     (FieldName cfg = ''validationGroup'' \<and> snd (getRawValue r cfg))"
proof (cases st)
  case (Pair req errors)
  show ?thesis
  proof (cases "FieldByName (FieldName cfg)")
    case None
    then have "FieldName cfg \<noteq> ''validationGroup''" by (auto simp: FieldByName_def)
    then show ?thesis using None Pair by (simp add: parse_config_def)
  next
    case (Some f)
    obtain raw found where g: "getRawValue r cfg = (raw, found)" by (cases "getRawValue r cfg")
    have "(f = validationGroup_field) = (FieldName cfg = ''validationGroup'')"
      using Some FieldByName_validationGroup [of "FieldName cfg"] by auto
    then show ?thesis using Some Pair g setFieldValue_Panic_iff [of f raw cfg req]
      by (cases "setFieldValue f raw cfg req") (auto simp: parse_config_def)
  qed
qed

lemma parse_config_None_iff: "(parse_config r cfg st = None) = sets_unexported r cfg"
  by (simp add: sets_unexported_def parse_config_None_cases)

lemma parse_config_errors:
  assumes "parse_config r cfg (req, errors) = Some (req', errors')"
  shows "errors' = errors @ config_errors r cfg"
proof (cases "FieldByName (FieldName cfg)")
  case None
  then show ?thesis using assms by (simp add: parse_config_def config_errors_def)
next
  case (Some f)
  obtain raw found where g: "getRawValue r cfg = (raw, found)" by (cases "getRawValue r cfg")
  show ?thesis
  proof (cases found)
    case False
    then show ?thesis using assms Some g by (auto simp: parse_config_def config_errors_def)
  next
    case True
    show ?thesis
    proof (cases "setFieldValue f raw cfg req")
      case Panic
      then show ?thesis using assms Some g True by (simp add: parse_config_def)
    next
      case (Failed m)
      then have "setFieldValue f raw cfg (new_request []) = Failed m"
        using setFieldValue_Failed_indep by blast
      then show ?thesis using assms Some g True Failed
        by (simp add: parse_config_def config_errors_def)
    next
      case (Done q)
      then have np: "f \<noteq> validationGroup_field" using setFieldValue_Panic_iff [of f raw cfg req] by auto
      have "setFieldValue f raw cfg (new_request []) \<noteq> Panic"
        using np by (simp add: setFieldValue_Panic_iff)
      moreover have "setFieldValue f raw cfg (new_request []) \<noteq> Failed m" for m
        using Done setFieldValue_Failed_indep [of f raw cfg "new_request []" m req] by simp
      ultimately obtain q' where "setFieldValue f raw cfg (new_request []) = Done q'"
        by (cases "setFieldValue f raw cfg (new_request [])") auto
      then show ?thesis using assms Some g True Done
        by (simp add: parse_config_def config_errors_def)
    qed
  qed
qed

lemma parse_configs_append:
  "parse_configs r (xs @ ys) st =
     (case parse_configs r xs st of None \<Rightarrow> None | Some st' \<Rightarrow> parse_configs r ys st')"
  by (induction xs arbitrary: st) (auto split: option.splits)

lemma parse_configs_None_iff:
  "(parse_configs r configs st = None) = (\<exists>cfg \<in> set configs. sets_unexported r cfg)"
proof (induction configs arbitrary: st)
  case Nil
  show ?case by simp
next
  case (Cons c cs)
  show ?case
  proof (cases "parse_config r c st")
    case None
    then show ?thesis using parse_config_None_iff [of r c st] by auto
  next
    case (Some st')
    then have "\<not> sets_unexported r c"
      using parse_config_None_iff [of r c st] by auto
    then show ?thesis using Some Cons [of st'] by auto
  qed
qed

lemma parse_configs_errors:
  "parse_configs r configs (req, errors) = Some (req', errors') \<Longrightarrow>
   errors' = errors @ concat (map (config_errors r) configs)"
proof (induction configs arbitrary: req errors)
  case Nil
  then show ?case by simp
next
  case (Cons c cs)
  from Cons.prems obtain q es where
    1: "parse_config r c (req, errors) = Some (q, es)" and
    2: "parse_configs r cs (q, es) = Some (req', errors')"
    by (auto split: option.splits)
  from 1 have "es = errors @ config_errors r c" by (rule parse_config_errors)
  moreover from 2 have "errors' = es @ concat (map (config_errors r) cs)" by (rule Cons.IH)
  ultimately show ?case by simp
qed

lemma ValidateRequest_no_panic:
  assumes "\<forall>cfg \<in> set configs. \<not> sets_unexported r cfg"
  shows "\<exists>req. parse_configs r configs (new_request grp, []) =
           Some (req, concat (map (config_errors r) configs))"
proof -
  have "parse_configs r configs (new_request grp, []) \<noteq> None"
    using assms by (auto simp: parse_configs_None_iff)
  then obtain req errors where
    p: "parse_configs r configs (new_request grp, []) = Some (req, errors)" by auto
  then have "errors = concat (map (config_errors r) configs)"
    using parse_configs_errors by fastforce
  with p show ?thesis by blast
qed

lemma config_errors_Field: "e \<in> set (config_errors r cfg) \<Longrightarrow> Field e = FieldName cfg"
  by (auto simp: config_errors_def parse_config_def
        split: option.splits prod.splits if_splits set_result.splits)

lemma config_errors_required_absent:
  assumes "Required cfg" "FieldByName (FieldName cfg) \<noteq> None" "\<not> snd (getRawValue r cfg)"
  shows "config_errors r cfg = [required_error (FieldName cfg)]"
  using assms
  by (auto simp: config_errors_def parse_config_def required_error_def split: prod.splits)

lemma parse_config_required_absent:
  assumes "Required cfg" "FieldByName (FieldName cfg) \<noteq> None" "\<not> snd (getRawValue r cfg)"
  shows "parse_config r cfg (req, errors) = Some (req, errors @ [required_error (FieldName cfg)])"
  using assms
  by (auto simp: parse_config_def required_error_def split: prod.splits)

lemma filter_other_config:
  "FieldName c \<noteq> name \<Longrightarrow> filter (\<lambda>e. Field e = name) (config_errors r c) = []"
  by (auto simp: filter_empty_conv dest: config_errors_Field)

lemma filter_same_config:
  "FieldName c = name \<Longrightarrow> filter (\<lambda>e. Field e = name) (config_errors r c) = config_errors r c"
  by (auto simp: filter_id_conv dest: config_errors_Field)

lemma filter_errors_by_name:
  "filter (\<lambda>e. Field e = name) (concat (map (config_errors r) configs)) =
     concat (map (config_errors r) (filter (\<lambda>c. FieldName c = name) configs))"
  by (induction configs) (auto simp: filter_other_config filter_same_config)

lemma ValidateRequest_errors:
  assumes "parse_configs r configs (new_request grp, []) = Some (req, errors)" "errors \<noteq> []"
  shows "ValidateRequest V configs grp r =
           Respond StatusBadRequest
             (ErrorBody \<lparr>Code = StatusBadRequest, Message = ''Invalid request data'',
                         Errors = errors\<rparr>)"
  using assms by (simp add: ValidateRequest_def)

lemma getRawValue_body_update: "getRawValue (r\<lparr>body := b\<rparr>) cfg = getRawValue r cfg"
  by (simp add: getRawValue_def)

lemma parse_config_body_update: "parse_config (r\<lparr>body := b\<rparr>) cfg st = parse_config r cfg st"
  by (simp only: parse_config_def getRawValue_body_update)

lemma parse_configs_body_update:
  "parse_configs (r\<lparr>body := b\<rparr>) configs st = parse_configs r configs st"
  by (induction configs arbitrary: st)
     (simp_all add: parse_config_body_update cong: option.case_cong)

lemma setFieldValue_supported:
  "setFieldValue f raw cfg req \<noteq> Failed ''unsupported field type''
   \<and> setFieldValue f raw cfg req \<noteq> Failed ''unsupported slice type''"
  by (cases f)
     (auto simp: setFieldValue_def Let_def split: option.splits sum.splits
           dest!: parse_loop_Inl_not_unsupported)

lemma ValidateRequest_Panicked_iff:
  "(ValidateRequest V configs grp r = Panicked) = (\<exists>cfg \<in> set configs. sets_unexported r cfg)"
proof -
  have "(ValidateRequest V configs grp r = Panicked) =
        (parse_configs r configs (new_request grp, []) = None)"
    by (auto simp: ValidateRequest_def split: option.splits list.splits)
  then show ?thesis by (simp add: parse_configs_None_iff)
qed

lemma pipeline_collects_all_errors:
  assumes "\<forall>cfg \<in> set configs. \<not> sets_unexported r cfg"
  shows "\<exists>req. parse_configs r configs (new_request grp, []) =
                  Some (req, concat (map (config_errors r) configs))
    \<and> ValidateRequest V configs grp r =
        (if concat (map (config_errors r) configs) \<noteq> []
         then Respond StatusBadRequest
                (ErrorBody \<lparr>Code = StatusBadRequest, Message = ''Invalid request data'',
                            Errors = concat (map (config_errors r) configs)\<rparr>)
         else (case V req of
                 None \<Rightarrow> NoReturn
               | Some [] \<Rightarrow> Respond StatusOK (ValidBody req)
               | Some (e # es) \<Rightarrow>
                   Respond StatusUnprocessableEntity
                     (ErrorBody
                       \<lparr>Code = StatusUnprocessableEntity, Message = ''Validation failed'',
                        Errors =
                          map (\<lambda>e. \<lparr>Field = StructField e, Message = getValidationMessage e,
                                    Value = Sprintf_v (FieldError.Value e)\<rparr>) (e # es)\<rparr>)))"
proof -
  from assms obtain req where
    "parse_configs r configs (new_request grp, []) =
       Some (req, concat (map (config_errors r) configs))"
    using ValidateRequest_no_panic by blast
  then show ?thesis
    by (intro exI [of _ req]) (simp add: ValidateRequest_def del: concat_eq_Nil_conv)
qed

lemma parse_config_Default: "parse_config r (cfg\<lparr>Default := d\<rparr>) st = parse_config r cfg st"
proof -
  have "getRawValue r (cfg\<lparr>Default := d\<rparr>) = getRawValue r cfg"
    by (simp add: getRawValue_def)
  moreover have "setFieldValue f raw (cfg\<lparr>Default := d\<rparr>) req = setFieldValue f raw cfg req"
    for f raw req
    by (simp add: setFieldValue_def)
  ultimately show ?thesis
    by (simp add: parse_config_def
          cong: option.case_cong prod.case_cong if_cong set_result.case_cong)
qed

lemma parse_configs_Default:
  "parse_configs r (map (\<lambda>c. c\<lparr>Default := d c\<rparr>) configs) st = parse_configs r configs st"
  by (induction configs arbitrary: st)
     (simp_all add: parse_config_Default cong: option.case_cong)

text \<open>Body-sourced descriptors leave the record as it is.\<close>

lemma parse_config_body:
  "Parser cfg = BodyParser \<Longrightarrow> \<exists>errs'. parse_config r cfg (req, errs) = Some (req, errs')"
  by (simp add: parse_config_def getRawValue_def split: option.splits)

lemma parse_configs_body:
  "\<forall>c \<in> set configs. Parser c = BodyParser \<Longrightarrow>
   \<exists>errs'. parse_configs r configs (req, errs) = Some (req, errs')"
proof (induction configs arbitrary: errs)
  case Nil
  then show ?case by simp
next
  case (Cons c cs)
  then obtain e1 where "parse_config r c (req, errs) = Some (req, e1)"
    using parse_config_body [of c r req errs] by auto
  moreover obtain e2 where "parse_configs r cs (req, e1) = Some (req, e2)"
    using Cons by fastforce
  ultimately show ?case by simp
qed

section \<open>The claims about the pipeline\<close>

text \<open>
  Claim C1. The loop visits every descriptor and collects the required and coercion
  errors of all of them, and a non-empty collection is answered with status 400 before
  any validation: for the descriptor lists and requests in which no descriptor sets the
  unexported field this is \<open>pipeline_collects_all_errors\<close>. For every descriptor list,
  as the claim is stated, the code falls short of it. A descriptor that names
  \<^verbatim>\<open>validationGroup\<close> and finds a value makes the handler panic: nothing is written,
  and the descriptors after it are not visited. Below, the second descriptor on its
  own is answered with status 400 and its required error; after the first one the
  handler panics instead.
\<close>

theorem unexported_field_descriptor_panics:
  "ValidateRequest V
     [optional_config ''validationGroup'' QueryParser, required_config ''Name'' QueryParser]
     grp (query_request ''validationGroup'' ''x'') = Panicked
   \<and> ValidateRequest V [required_config ''Name'' QueryParser]
       grp (query_request ''validationGroup'' ''x'') =
       Respond 400 (ErrorBody \<lparr>Code = 400, Message = ''Invalid request data'',
          Errors = [required_error ''Name'']\<rparr>)"
  by (simp add: pipeline_simps setFieldValue_def)

text \<open>
  Claim C2, as the code has it. A descriptor whose \<^verbatim>\<open>FieldName\<close> names no field of the
  record is skipped silently: its visit adds no error and leaves the record as it was,
  and the handler answers as it does for the list without this descriptor. No field of
  the record has an unsupported type: \<open>setFieldValue\<close> never reports
  \<^verbatim>\<open>unsupported field type\<close> or \<^verbatim>\<open>unsupported slice type\<close>.
\<close>

theorem unknown_field_skipped:
  assumes "FieldByName (FieldName cfg) = None"
  shows "parse_config r cfg st = Some st
    \<and> ValidateRequest V (cfgs @ cfg # cfgs') grp r = ValidateRequest V (cfgs @ cfgs') grp r
    \<and> setFieldValue f raw c req \<noteq> Failed ''unsupported field type''
    \<and> setFieldValue f raw c req \<noteq> Failed ''unsupported slice type''"
proof -
  have 1: "parse_config r cfg st = Some st" for st
    using assms by (cases st) (simp add: parse_config_def)
  have "parse_configs r (cfgs @ cfg # cfgs') st = parse_configs r (cfgs @ cfgs') st" for st
    by (simp add: parse_configs_append 1 split: option.splits)
  then show ?thesis using 1 setFieldValue_supported
    by (simp add: ValidateRequest_def)
qed

theorem unknown_field_skipped_witness:
  "FieldByName (FieldName (required_config ''Nickname'' QueryParser)) = None
   \<and> parse_config (query_request ''IDs'' ''4,5'') (required_config ''Nickname'' QueryParser)
        (new_request [], []) = Some (new_request [], [])
   \<and> ValidateRequest validate_Struct_hangs
        ([IDs_query_config] @ required_config ''Nickname'' QueryParser # []) ''update''
        (query_request ''IDs'' ''4,5'') =
      ValidateRequest validate_Struct_hangs ([IDs_query_config] @ []) ''update''
        (query_request ''IDs'' ''4,5'')"
proof -
  have h: "FieldByName (FieldName (required_config ''Nickname'' QueryParser)) = None"
    by (simp add: required_config_def FieldByName_def)
  from unknown_field_skipped [OF h, where r = "query_request ''IDs'' ''4,5''"
      and st = "(new_request [], [])" and V = validate_Struct_hangs and cfgs = "[IDs_query_config]"
      and cfgs' = "[]" and grp = "''update''"] h
  show ?thesis by simp
qed

text \<open>
  Claim C2 as stated fails: a required descriptor with the unknown name
  \<^verbatim>\<open>Nickname\<close> causes no failure at all. Its visit changes nothing, and in a list with
  a required descriptor of \<^verbatim>\<open>Name\<close> the answer is the 400 of that descriptor alone,
  with no word about \<^verbatim>\<open>Nickname\<close>.
\<close>

theorem unknown_field_no_failure:
  "FieldByName ''Nickname'' = None
   \<and> parse_configs empty_request [required_config ''Nickname'' QueryParser]
        (new_request [], []) =
      Some (new_request [], [])
   \<and> ValidateRequest validate_Struct_hangs
        [required_config ''Nickname'' QueryParser, required_config ''Name'' QueryParser] []
        empty_request =
      Respond 400 (ErrorBody \<lparr>Code = 400, Message = ''Invalid request data'',
        Errors = [required_error ''Name'']\<rparr>)"
  by (simp add: pipeline_simps)

text \<open>
  Claim C3. A descriptor with a default literal whose source lookup finds nothing should
  have the default coerced into the record. The handler never reads \<^verbatim>\<open>Default\<close>. Take
  the \<^verbatim>\<open>Rating\<close> descriptor of the search endpoint, with the default \<^verbatim>\<open>5\<close>, and a
  request without the parameter: coercing the default would set \<^verbatim>\<open>Rating\<close> to 5, but
  the loop ends with no error and with the record as it started, \<^verbatim>\<open>Rating\<close> 0. And
  replacing the default literals of any descriptor list changes nothing in what the loop
  and the handler do.
\<close>

theorem default_literal_ignored:
  "parse_configs empty_request [Rating_query_config] (new_request ''search'', []) =
     Some (new_request ''search'', [])
   \<and> Rating (new_request ''search'') = 0
   \<and> Default Rating_query_config = ''5''
   \<and> setFieldValue Rating_field (Default Rating_query_config) Rating_query_config
        (new_request ''search'') =
      Done ((new_request ''search'')\<lparr>Rating := 5\<rparr>)
   \<and> parse_configs r (map (\<lambda>c. c\<lparr>Default := d c\<rparr>) configs) st = parse_configs r configs st
   \<and> ValidateRequest V (map (\<lambda>c. c\<lparr>Default := d c\<rparr>) configs) grp r =
       ValidateRequest V configs grp r"
proof -
  have loop: "parse_configs empty_request [Rating_query_config] (new_request ''search'', []) =
      Some (new_request ''search'', [])"
    by (simp add: pipeline_simps Rating_query_config_def)
  have zero: "Rating (new_request ''search'') = 0"
    by (simp add: new_request_def)
  have lit: "Default Rating_query_config = ''5''"
    by (simp add: Rating_query_config_def)
  have "setFieldValue Rating_field ''5'' Rating_query_config (new_request ''search'') =
      Done ((new_request ''search'')\<lparr>Rating := 5\<rparr>)"
    by (simp add: setFieldValue_def ParseInt_def digit_val_def)
  with lit have coerced:
    "setFieldValue Rating_field (Default Rating_query_config) Rating_query_config
        (new_request ''search'') =
      Done ((new_request ''search'')\<lparr>Rating := 5\<rparr>)"
    by simp
  have same: "parse_configs r (map (\<lambda>c. c\<lparr>Default := d c\<rparr>) configs) st =
      parse_configs r configs st" for st
    by (rule parse_configs_Default)
  then have "ValidateRequest V (map (\<lambda>c. c\<lparr>Default := d c\<rparr>) configs) grp r =
       ValidateRequest V configs grp r"
    by (simp add: ValidateRequest_def)
  with loop zero lit coerced same show ?thesis by blast
qed

text \<open>
  Claim C5, as the code has it. Take a descriptor list in which no descriptor sets the
  unexported field, and in it a required descriptor that names a field of the record,
  whose source lookup finds nothing, and that is the only descriptor of the list with its
  field name. Then the handler answers 400, whatever the validator would report, with the
  errors of all descriptors; exactly one of them carries the name of this field, and it
  is the error \<^verbatim>\<open>This field is required\<close> with no value. The visit of the descriptor
  adds this error only and leaves the record as it was.
\<close>

theorem required_absent_one_error:
  assumes "filter (\<lambda>c. FieldName c = FieldName cfg) configs = [cfg]"
    and "Required cfg" and "FieldByName (FieldName cfg) \<noteq> None"
    and "\<not> snd (getRawValue r cfg)"
    and "\<forall>c \<in> set configs. \<not> sets_unexported r c"
  shows "ValidateRequest V configs grp r =
           Respond StatusBadRequest
             (ErrorBody \<lparr>Code = StatusBadRequest, Message = ''Invalid request data'',
                         Errors = concat (map (config_errors r) configs)\<rparr>)
    \<and> filter (\<lambda>e. Field e = FieldName cfg) (concat (map (config_errors r) configs)) =
         [\<lparr>Field = FieldName cfg, Message = ''This field is required'', Value = []\<rparr>]
    \<and> parse_config r cfg (req, errors) =
         Some (req, errors @
           [\<lparr>Field = FieldName cfg, Message = ''This field is required'', Value = []\<rparr>])"
proof -
  let ?errs = "concat (map (config_errors r) configs)"
  from assms(5) obtain q where p: "parse_configs r configs (new_request grp, []) = Some (q, ?errs)"
    using ValidateRequest_no_panic by blast
  have "filter (\<lambda>e. Field e = FieldName cfg) ?errs = config_errors r cfg"
    using assms(1) by (simp add: filter_errors_by_name)
  then have f: "filter (\<lambda>e. Field e = FieldName cfg) ?errs = [required_error (FieldName cfg)]"
    using config_errors_required_absent [OF assms(2,3,4)] by simp
  have "?errs \<noteq> []"
  proof
    assume "?errs = []"
    with f show False by (simp del: concat_eq_Nil_conv)
  qed
  with p have "ValidateRequest V configs grp r =
           Respond StatusBadRequest
             (ErrorBody \<lparr>Code = StatusBadRequest, Message = ''Invalid request data'',
                         Errors = ?errs\<rparr>)"
    by (rule ValidateRequest_errors)
  then show ?thesis
    using f parse_config_required_absent [OF assms(2,3,4)]
    by (simp add: required_error_def)
qed

theorem required_absent_one_error_witness:
  "Required (required_config ''Name'' QueryParser)
   \<and> \<not> snd (getRawValue (query_request ''IDs'' ''1,x'') (required_config ''Name'' QueryParser))
   \<and> filter (\<lambda>c. FieldName c = FieldName (required_config ''Name'' QueryParser))
        [required_config ''Name'' QueryParser, IDs_query_config] =
      [required_config ''Name'' QueryParser]
   \<and> ValidateRequest validate_Struct_hangs [required_config ''Name'' QueryParser, IDs_query_config]
        ''update'' (query_request ''IDs'' ''1,x'') =
      Respond 400 (ErrorBody \<lparr>Code = 400, Message = ''Invalid request data'',
        Errors = [required_error ''Name'',
                  \<lparr>Field = ''IDs'', Message = ''element 2: must be positive integer'',
                    Value = ''1,x''\<rparr>]\<rparr>)
   \<and> filter (\<lambda>e. Field e = ''Name'')
        (concat (map (config_errors (query_request ''IDs'' ''1,x''))
           [required_config ''Name'' QueryParser, IDs_query_config])) =
      [required_error ''Name'']"
proof -
  let ?r = "query_request ''IDs'' ''1,x''"
  let ?cfg = "required_config ''Name'' QueryParser"
  let ?configs = "[?cfg, IDs_query_config]"
  have h1: "filter (\<lambda>c. FieldName c = FieldName ?cfg) ?configs = [?cfg]"
    by (simp add: required_config_def IDs_query_config_def)
  have h2: "Required ?cfg" by (simp add: required_config_def)
  have h3: "FieldByName (FieldName ?cfg) \<noteq> None"
    by (simp add: required_config_def FieldByName_def)
  have h4: "\<not> snd (getRawValue ?r ?cfg)"
    by (simp add: pipeline_simps)
  have h5: "\<forall>c \<in> set ?configs. \<not> sets_unexported ?r c"
    by (simp add: sets_unexported_def required_config_def IDs_query_config_def)
  have n: "FieldName ?cfg = ''Name''" by (simp add: required_config_def)
  have e: "concat (map (config_errors ?r) ?configs) =
      [required_error ''Name'',
       \<lparr>Field = ''IDs'', Message = ''element 2: must be positive integer'', Value = ''1,x''\<rparr>]"
    by (simp add: config_errors_def pipeline_simps IDs_query_config_def eval_simps)
  note th = required_absent_one_error [OF h1 h2 h3 h4 h5, of validate_Struct_hangs "''update''",
      unfolded e n]
  from th h1 h2 h4 show ?thesis
    unfolding e by (simp add: StatusBadRequest_def required_error_def)
qed

text \<open>
  Claim C5 as stated fails. A required descriptor with a name that is no field of the
  record (\<^verbatim>\<open>name\<close> for \<^verbatim>\<open>Name\<close>) adds no error: its visit changes nothing, and
  next to a required descriptor of \<^verbatim>\<open>Email\<close> the 400 holds the error of
  \<^verbatim>\<open>Email\<close> only. And two required descriptors of the same field, both absent, add
  two errors for it.
\<close>

theorem required_absent_not_one_error:
  "\<not> snd (getRawValue empty_request (required_config ''name'' QueryParser))
   \<and> parse_configs empty_request [required_config ''name'' QueryParser] (new_request [], []) =
      Some (new_request [], [])
   \<and> ValidateRequest validate_Struct_hangs
        [required_config ''name'' QueryParser, required_config ''Email'' QueryParser] []
        empty_request =
      Respond 400 (ErrorBody \<lparr>Code = 400, Message = ''Invalid request data'',
        Errors = [required_error ''Email'']\<rparr>)
   \<and> ValidateRequest validate_Struct_hangs
        [required_config ''Name'' QueryParser, required_config ''Name'' ParamParser] []
        empty_request =
      Respond 400 (ErrorBody \<lparr>Code = 400, Message = ''Invalid request data'',
        Errors = [required_error ''Name'', required_error ''Name'']\<rparr>)"
  by (simp add: pipeline_simps)

text \<open>
  Claim C10. For a descriptor whose source is the body, \<open>getRawValue\<close> reports the
  field as not present, whatever the request. So the visit of such a descriptor, when it
  names a field of the record, adds the error \<^verbatim>\<open>This field is required\<close> if the
  descriptor is required and nothing otherwise, and leaves the record as it was. The
  payload is never read: the handler answers the same for every body. In a list in
  which no descriptor sets the unexported field, a required body-sourced descriptor of
  a field of the record makes the answer a 400 that holds its required error. And when
  all descriptors are body-sourced, the loop ends with the record at its zero value.
\<close>

theorem body_source_never_present:
  assumes "Parser cfg = BodyParser"
  shows "getRawValue r cfg = ([], False)
    \<and> (FieldByName (FieldName cfg) \<noteq> None \<longrightarrow>
         parse_config r cfg (req, errors) =
           Some (req,
             if Required cfg
             then errors @
               [\<lparr>Field = FieldName cfg, Message = ''This field is required'', Value = []\<rparr>]
             else errors))
    \<and> ValidateRequest V configs grp (r\<lparr>body := b\<rparr>) = ValidateRequest V configs grp r
    \<and> (cfg \<in> set configs \<and> Required cfg \<and> FieldByName (FieldName cfg) \<noteq> None
         \<and> (\<forall>c \<in> set configs. \<not> sets_unexported r c)
         \<longrightarrow>
         (\<exists>errs. ValidateRequest V configs grp r =
                   Respond StatusBadRequest
                     (ErrorBody \<lparr>Code = StatusBadRequest, Message = ''Invalid request data'',
                                 Errors = errs\<rparr>)
                \<and> \<lparr>Field = FieldName cfg, Message = ''This field is required'', Value = []\<rparr>
                    \<in> set errs))
    \<and> ((\<forall>c \<in> set configs. Parser c = BodyParser) \<longrightarrow>
         (\<exists>errs. parse_configs r configs (new_request grp, []) = Some (new_request grp, errs)))"
proof (intro conjI impI)
  show "\<exists>errs. parse_configs r configs (new_request grp, []) = Some (new_request grp, errs)"
    if "\<forall>c \<in> set configs. Parser c = BodyParser"
    using that by (rule parse_configs_body)
  show g: "getRawValue r cfg = ([], False)"
    using assms by (simp add: getRawValue_def)
  show "ValidateRequest V configs grp (r\<lparr>body := b\<rparr>) = ValidateRequest V configs grp r"
    by (simp add: ValidateRequest_def parse_configs_body_update)
  show "parse_config r cfg (req, errors) =
           Some (req,
             if Required cfg
             then errors @
               [\<lparr>Field = FieldName cfg, Message = ''This field is required'', Value = []\<rparr>]
             else errors)"
    if "FieldByName (FieldName cfg) \<noteq> None"
    using that g by (auto simp: parse_config_def)
  assume a: "cfg \<in> set configs \<and> Required cfg \<and> FieldByName (FieldName cfg) \<noteq> None
         \<and> (\<forall>c \<in> set configs. \<not> sets_unexported r c)"
  let ?errs = "concat (map (config_errors r) configs)"
  from a obtain q where p: "parse_configs r configs (new_request grp, []) = Some (q, ?errs)"
    using ValidateRequest_no_panic [of configs r grp] by auto
  have "config_errors r cfg = [required_error (FieldName cfg)]"
    using a g by (intro config_errors_required_absent) auto
  then have m: "required_error (FieldName cfg) \<in> set ?errs" using a by force
  have "?errs \<noteq> []"
  proof
    assume "?errs = []"
    with m show False by (simp del: concat_eq_Nil_conv)
  qed
  with p have "ValidateRequest V configs grp r =
           Respond StatusBadRequest
             (ErrorBody \<lparr>Code = StatusBadRequest, Message = ''Invalid request data'',
                         Errors = ?errs\<rparr>)"
    by (rule ValidateRequest_errors)
  with m show "\<exists>errs. ValidateRequest V configs grp r =
                   Respond StatusBadRequest
                     (ErrorBody \<lparr>Code = StatusBadRequest, Message = ''Invalid request data'',
                                 Errors = errs\<rparr>)
                \<and> \<lparr>Field = FieldName cfg, Message = ''This field is required'', Value = []\<rparr>
                    \<in> set errs"
    by (auto simp: required_error_def)
qed

theorem body_source_never_present_witness:
  \<open>Parser Name_body_config = BodyParser
   \<and> getRawValue
        \<lparr>query = Map.empty, vars = Map.empty,
          body = ''{"name":"Alice","email":"alice@example.com","tags":["go","web"]}''\<rparr>
        Name_body_config = ([], False)
   \<and> ValidateRequest validate_Struct_hangs [Name_body_config, Email_body_config, Tags_body_config]
        ''create''
        \<lparr>query = Map.empty, vars = Map.empty,
          body = ''{"name":"Alice","email":"alice@example.com","tags":["go","web"]}''\<rparr> =
      ValidateRequest validate_Struct_hangs [Name_body_config, Email_body_config, Tags_body_config]
        ''create'' empty_request
   \<and> ValidateRequest validate_Struct_hangs [Name_body_config, Email_body_config, Tags_body_config]
        ''create'' empty_request =
      Respond 400 (ErrorBody \<lparr>Code = 400, Message = ''Invalid request data'',
        Errors = [required_error ''Name'', required_error ''Email'']\<rparr>)
   \<and> parse_configs empty_request [Name_body_config, Email_body_config, Tags_body_config]
        (new_request ''create'', []) =
      Some (new_request ''create'', [required_error ''Name'', required_error ''Email''])\<close>
proof -
  let ?configs = "[Name_body_config, Email_body_config, Tags_body_config]"
  have h: "Parser Name_body_config = BodyParser" by (simp add: Name_body_config_def)
  have e: \<open>empty_request
      \<lparr>body := ''{"name":"Alice","email":"alice@example.com","tags":["go","web"]}''\<rparr> =
      \<lparr>query = Map.empty, vars = Map.empty,
        body = ''{"name":"Alice","email":"alice@example.com","tags":["go","web"]}''\<rparr>\<close>
    by (simp add: empty_request_def)
  have p: "parse_configs empty_request ?configs (new_request ''create'', []) =
      Some (new_request ''create'', [required_error ''Name'', required_error ''Email''])"
    by (simp add: pipeline_simps Name_body_config_def Email_body_config_def
          Tags_body_config_def)
  then have v: "ValidateRequest validate_Struct_hangs ?configs ''create'' empty_request =
      Respond 400 (ErrorBody \<lparr>Code = 400, Message = ''Invalid request data'',
        Errors = [required_error ''Name'', required_error ''Email'']\<rparr>)"
    by (simp add: ValidateRequest_def StatusBadRequest_def)
  from body_source_never_present [OF h, where r = empty_request and V = validate_Struct_hangs
      and configs = ?configs and grp = "''create''"
      and b = \<open>''{"name":"Alice","email":"alice@example.com","tags":["go","web"]}''\<close>]
    body_source_never_present [OF h, where
      r = \<open>\<lparr>query = Map.empty, vars = Map.empty,
        body = ''{"name":"Alice","email":"alice@example.com","tags":["go","web"]}''\<rparr>\<close>]
    h e v p
  show ?thesis by simp
qed

end
